theory Spec2Isabelle
  imports Complex_Main
begin

section \<open>Conventions of the embedding\<close>

text \<open>
  The admission-control core of the trading service is embedded function by function.
  Python floats are modelled as reals and Python ints as \<open>int\<close>; float operations are
  exact except in the budget guard, whose threshold test is decided by rounding and is
  modelled in double precision. Every read of the wall clock (\<^verbatim>\<open>time.time()\<close>,
  \<^verbatim>\<open>datetime.now(timezone.utc)\<close>) is an explicit argument of the function that
  performs it. An exception is a value of type \<open>exn\<close>; a function that may raise returns
  \<open>exn + 'a\<close> with \<open>Inl\<close> carrying the exception.
\<close>

datatype exn =
    ZeroDivisionError
  | ValidationError string
  | OSError string
  | RuntimeError string
  | TypeError string

section \<open>TokenBucket (backend/util/ratelimit.py)\<close>

record TokenBucket =
  rps :: real
  burst :: int
  name :: string
  tokens :: real
  last_refill :: real
  tokens_consumed :: int
  total_wait_time :: real

text \<open>\<^verbatim>\<open>TokenBucket.__init__(rps, burst, name)\<close>; \<open>t0\<close> is the clock read of the constructor.\<close>

definition TokenBucket_init :: "real \<Rightarrow> int \<Rightarrow> string \<Rightarrow> real \<Rightarrow> TokenBucket" where
  "TokenBucket_init r b n t0 =
     \<lparr> rps = r, burst = b, name = n, tokens = real_of_int b, last_refill = t0,
       tokens_consumed = 0, total_wait_time = 0 \<rparr>"

text \<open>
  \<^verbatim>\<open>TokenBucket.acquire(tokens, timeout_ms)\<close>. The clock reads are \<open>start_time\<close> (line 80),
  \<open>now\<close> (line 85) and \<open>end_time\<close> (lines 99, 141, 153). The float division of line 130
  raises \<^verbatim>\<open>ZeroDivisionError\<close> when \<^verbatim>\<open>self.rps\<close> is zero. The metrics recorders called
  when \<^verbatim>\<open>METRICS_AVAILABLE\<close> holds write to the metrics registry only and are left out.
\<close>

definition refill :: "TokenBucket \<Rightarrow> real \<Rightarrow> TokenBucket" where
  "refill b now =
     (let elapsed = now - last_refill b;
          refill_amount = elapsed * rps b
      in if refill_amount > 0
         then b\<lparr> tokens := min (real_of_int (burst b)) (tokens b + refill_amount),
                 last_refill := now \<rparr>
         else b)"

definition acquire ::
  "TokenBucket \<Rightarrow> int \<Rightarrow> int \<Rightarrow> real \<Rightarrow> real \<Rightarrow> real \<Rightarrow> exn + (TokenBucket \<times> bool)" where
  "acquire b0 n timeout_ms start_time now end_time =
     (let timeout_seconds = real_of_int timeout_ms / 1000;
          b = refill b0 now
      in if tokens b \<ge> real_of_int n
         then Inr (b\<lparr> tokens := tokens b - real_of_int n,
                       tokens_consumed := tokens_consumed b + n,
                       total_wait_time := total_wait_time b + (end_time - start_time) * 1000 \<rparr>,
                   True)
         else
           (let tokens_needed = real_of_int n - tokens b
            in if rps b = 0 then Inl ZeroDivisionError
               else
                 (let wait_seconds = tokens_needed / rps b
                  in if wait_seconds \<le> timeout_seconds
                     then Inr (b\<lparr> tokens :=
                                     min (real_of_int (burst b)) (tokens b + wait_seconds * rps b)
                                       - real_of_int n,
                                   tokens_consumed := tokens_consumed b + n,
                                   total_wait_time :=
                                     total_wait_time b + (end_time - start_time) * 1000 \<rparr>,
                               True)
                     else Inr (b, False))))"

text \<open>
  A sequence of \<^verbatim>\<open>acquire(1, timeout_ms)\<close> calls on one bucket; each call is given by its
  timeout and its three clock reads. The run stops at the first exception, as the caller
  would.
\<close>

fun acquire_each ::
  "TokenBucket \<Rightarrow> (int \<times> real \<times> real \<times> real) list \<Rightarrow> exn + (TokenBucket \<times> bool list)" where
  "acquire_each b [] = Inr (b, [])"
| "acquire_each b ((tmo, s, t, e) # cs) =
     (case acquire b 1 tmo s t e of
        Inl x \<Rightarrow> Inl x
      | Inr (b', ok) \<Rightarrow>
          (case acquire_each b' cs of
             Inl x \<Rightarrow> Inl x
           | Inr (b'', oks) \<Rightarrow> Inr (b'', ok # oks)))"

lemma refill_rps_zero: "rps b = 0 \<Longrightarrow> refill b now = b"
  by (simp add: refill_def)

lemma acquire_one_rps_zero:
  assumes "rps b = 0" and "tokens b = real k + 1"
  shows "\<exists>b'. acquire b 1 tmo s t e = Inr (b', True) \<and> rps b' = 0 \<and> tokens b' = real k"
  using assms by (simp add: acquire_def refill_rps_zero Let_def)

lemma acquire_each_rps_zero:
  assumes "rps b = 0" and "tokens b = real (length cs)"
  shows "\<exists>b'. acquire_each b cs = Inr (b', replicate (length cs) True)
              \<and> rps b' = 0 \<and> tokens b' = 0"
  using assms
proof (induction cs arbitrary: b)
  case Nil
  then show ?case by simp
next
  case (Cons c cs)
  obtain tmo s t e where c: "c = (tmo, s, t, e)"
    by (cases c) auto
  from Cons.prems have "tokens b = real (length cs) + 1"
    by simp
  with Cons.prems(1) obtain b1 where
    b1: "acquire b 1 tmo s t e = Inr (b1, True)" "rps b1 = 0" "tokens b1 = real (length cs)"
    using acquire_one_rps_zero by blast
  from Cons.IH [OF b1(2) b1(3)] obtain b2 where
    b2: "acquire_each b1 cs = Inr (b2, replicate (length cs) True)" "rps b2 = 0" "tokens b2 = 0"
    by blast
  show ?case
    using b1 b2 by (simp add: c)
qed

lemma acquire_empty_rps_zero:
  assumes "rps b = 0" and "tokens b = 0"
  shows "acquire b 1 tmo s t e = Inl ZeroDivisionError"
  using assms by (simp add: acquire_def refill_rps_zero Let_def)

text \<open>
  Claim C2. On a bucket built with \<open>burst = N\<close> and \<open>rps = 0\<close>, \<open>N\<close> sequential
  \<^verbatim>\<open>acquire(1)\<close> calls all return true, whatever their timeouts and clock reads. The next
  \<^verbatim>\<open>acquire(1, timeout_ms=0)\<close> does not return false: the bucket is empty, the wait
  \<open>(needed - have) / rps\<close> is computed with \<open>rps = 0\<close>, and the call raises
  \<^verbatim>\<open>ZeroDivisionError\<close>.
\<close>

theorem acquire_rps_zero_exhausted_raises:
  "\<exists>b'. acquire_each (TokenBucket_init 0 (int (length cs)) nm t0) cs
           = Inr (b', replicate (length cs) True)
        \<and> acquire b' 1 0 s t e = Inl ZeroDivisionError"
proof -
  let ?b = "TokenBucket_init 0 (int (length cs)) nm t0"
  have "rps ?b = 0" and "tokens ?b = real (length cs)"
    by (simp_all add: TokenBucket_init_def)
  then obtain b' where
    "acquire_each ?b cs = Inr (b', replicate (length cs) True)" "rps b' = 0" "tokens b' = 0"
    using acquire_each_rps_zero by blast
  then show ?thesis
    using acquire_empty_rps_zero by blast
qed

text \<open>
  The two paths of \<open>acquire\<close> that consume tokens differ. The immediate path subtracts
  only after checking \<open>tokens \<ge> n\<close>, so it keeps the count between 0 and \<open>burst\<close> for a
  request \<open>n \<ge> 0\<close>. The waiting path caps the refilled count at \<open>burst\<close> and then subtracts
  \<open>n\<close> unchecked.
\<close>

lemma refill_keeps_bounds:
  assumes "0 \<le> tokens b" and "tokens b \<le> real_of_int (burst b)" and "0 \<le> rps b"
  shows "0 \<le> tokens (refill b now) \<and> tokens (refill b now) \<le> real_of_int (burst (refill b now))"
  using assms by (auto simp: refill_def Let_def min_def)

lemma acquire_keeps_bounds_within_burst:
  assumes "0 \<le> tokens b" and "tokens b \<le> real_of_int (burst b)" and "0 \<le> rps b"
    and "0 \<le> n" and "n \<le> burst b"
    and "acquire b n tmo s t e = Inr (b', ok)"
  shows "0 \<le> tokens b' \<and> tokens b' \<le> real_of_int (burst b')"
proof -
  let ?r = "refill b t"
  have r: "0 \<le> tokens ?r" "tokens ?r \<le> real_of_int (burst ?r)"
    using refill_keeps_bounds [OF assms(1-3)] by simp_all
  have rr: "rps ?r = rps b" "burst ?r = burst b"
    by (simp_all add: refill_def Let_def)
  show ?thesis
  proof (cases "tokens ?r \<ge> real_of_int n")
    case True
    with assms(6) have "b' = ?r\<lparr> tokens := tokens ?r - real_of_int n,
        tokens_consumed := tokens_consumed ?r + n,
        total_wait_time := total_wait_time ?r + (e - s) * 1000 \<rparr>"
      by (simp add: acquire_def Let_def)
    then show ?thesis
      using True r assms(4) by simp
  next
    case False
    show ?thesis
    proof (cases "rps ?r = 0")
      case True
      with False assms(6) show ?thesis
        by (simp add: acquire_def Let_def)
    next
      case nz: False
      have full: "tokens ?r + (real_of_int n - tokens ?r) / rps ?r * rps ?r = real_of_int n"
        using nz by simp
      show ?thesis
      proof (cases "(real_of_int n - tokens ?r) / rps ?r \<le> real_of_int tmo / 1000")
        case True
        with False nz assms(6) have "tokens b' =
            min (real_of_int (burst ?r)) (real_of_int n) - real_of_int n" "burst b' = burst ?r"
          by (auto simp: acquire_def Let_def full)
        then show ?thesis
          using assms(4,5) rr by (simp add: min_def)
      next
        case wait: False
        with False nz assms(6) have "b' = ?r"
          by (simp add: acquire_def Let_def)
        then show ?thesis
          using r by simp
      qed
    qed
  qed
qed

text \<open>
  Claim C6. The invariant \<open>0 \<le> tokens \<le> burst\<close> is broken by a request above \<open>burst\<close>
  that is served by the waiting path: on a full bucket with \<open>burst = 5\<close> and \<open>rps = 10\<close>,
  \<^verbatim>\<open>acquire(10, timeout_ms=1000)\<close> waits half a second, caps the refill at 5, subtracts 10 and
  returns true with \<open>tokens = -5\<close>.
\<close>

theorem acquire_above_burst_negative_tokens:
  "map_sum id (\<lambda>(b, ok). (tokens b, burst b, ok))
     (acquire (TokenBucket_init 10 5 ''order_limiter'' 0) 10 1000 0 0 (1/2))
   = Inr (- 5, 5, True)"
  by (simp add: acquire_def refill_def TokenBucket_init_def Let_def)

section \<open>Double-precision arithmetic\<close>

text \<open>
  The budget guard compares a percentage that it computes in Python floats, so its
  arithmetic is modelled with the rounding of IEEE 754 binary64: the exact result of an
  operation is rounded to the nearest number with a 53-bit significand, ties to the even
  significand. \<open>scale_mantissa\<close> scales a positive number by powers of two into the range
  from \<open>2^52\<close> up to \<open>2^53\<close> (the fuel covers more than the exponent range of a double).
  The exponent range itself is not modelled: there is no overflow to infinity and there
  are no subnormal numbers.
\<close>

definition round_half_even :: "real \<Rightarrow> int" where
  "round_half_even x =
     (let f = \<lfloor>x\<rfloor>; r = x - real_of_int f
      in if r < 1 / 2 then f else if r > 1 / 2 then f + 1 else if even f then f else f + 1)"

fun scale_mantissa :: "nat \<Rightarrow> real \<Rightarrow> int \<Rightarrow> real \<times> int" where
  "scale_mantissa fuel m e =
     (if fuel = 0 then (m, e)
      else if m \<ge> 2 ^ 53 then scale_mantissa (fuel - 1) (m / 2) (e + 1)
      else if m < 2 ^ 52 then scale_mantissa (fuel - 1) (m * 2) (e - 1)
      else (m, e))"

declare scale_mantissa.simps [simp del]

definition round_double :: "real \<Rightarrow> real" where
  "round_double x =
     (if x = 0 then 0
      else case scale_mantissa 2200 \<bar>x\<bar> 0 of
             (m, e) \<Rightarrow>
               sgn x * (if e \<ge> 0 then real_of_int (round_half_even m) * 2 ^ nat e
                        else real_of_int (round_half_even m) / 2 ^ nat (- e)))"



section \<open>BudgetGuard (backend/util/budget_guard.py)\<close>

record PnLRecord =
  timestamp :: real
  realized_pnl :: real
  simulated_pnl :: real
  total_pnl :: real

text \<open>
  The field \<^verbatim>\<open>window_seconds\<close> of the guard is named \<open>budget_window_seconds\<close> here (the
  idempotency cache has a field of the same name). The deque \<^verbatim>\<open>records\<close> is a list, oldest
  record first.
\<close>

record BudgetGuard =
  max_drawdown_pct :: real
  budget_window_seconds :: int
  records :: "PnLRecord list"
  initial_balance :: real
  triggered :: bool
  triggered_at :: "real option"

definition BudgetGuard_init :: "real \<Rightarrow> int \<Rightarrow> BudgetGuard" where
  "BudgetGuard_init max_dd window_hours =
     \<lparr> max_drawdown_pct = max_dd, budget_window_seconds = window_hours * 3600,
       records = [], initial_balance = 10000, triggered = False, triggered_at = None \<rparr>"

definition set_initial_balance :: "BudgetGuard \<Rightarrow> real \<Rightarrow> BudgetGuard" where
  "set_initial_balance g balance = g\<lparr> initial_balance := balance \<rparr>"

text \<open>
  The sum \<^verbatim>\<open>sum(record.total_pnl for record in self.records)\<close> over the live window:
  the additions run from the left, starting at 0, each rounded to a double (the builtin
  \<^verbatim>\<open>sum\<close> of CPython before 3.12; later versions compensate the rounding of the
  additions).
\<close>

definition window_total :: "BudgetGuard \<Rightarrow> real" where
  "window_total g = foldl (\<lambda>a x. round_double (a + x)) 0 (map total_pnl (records g))"

text \<open>
  \<^verbatim>\<open>abs(total_pnl) / self.initial_balance * 100\<close>: a float division and a float
  multiplication, each rounded.
\<close>

definition drawdown_pct :: "real \<Rightarrow> real \<Rightarrow> real" where
  "drawdown_pct s balance = round_double (round_double (\<bar>s\<bar> / balance) * 100)"








section \<open>OrderIntent, validation and clipping (backend/schemas/order_intent.py)\<close>

datatype OrderSide = BUY | SELL

datatype OrderType = MARKET | LIMIT

datatype TimeInForce = GTC | IOC

text \<open>
  The pydantic model \<^verbatim>\<open>OrderIntent\<close>. The field \<^verbatim>\<open>size\<close> is named \<open>size_qty\<close> and the
  field \<^verbatim>\<open>type\<close> is named \<open>order_type\<close> (both names are taken in HOL). The enums are
  stored by value (\<^verbatim>\<open>use_enum_values\<close>); the comparisons with \<^verbatim>\<open>"BUY"\<close> and \<^verbatim>\<open>"limit"\<close>
  are comparisons of constructors here.
\<close>

record OrderIntent =
  symbol :: string
  side :: OrderSide
  size_qty :: real
  order_type :: OrderType
  intent_id :: string
  limit_px :: "real option"
  tif :: TimeInForce
  meta :: "(string \<times> string) list option"
  created_at :: real

text \<open>
  The validator \<^verbatim>\<open>OrderIntent.validate_size\<close> and the constraint \<^verbatim>\<open>Field(..., gt=0)\<close> of the
  field. With \<^verbatim>\<open>validate_assignment = True\<close> both run on every assignment to the field,
  the constraint first; a failure raises a pydantic \<^verbatim>\<open>ValidationError\<close>.
\<close>

definition validate_size :: "real \<Rightarrow> exn + real" where
  "validate_size v =
     (if v \<le> 0 then Inl (ValidationError ''Order size must be positive'')
      else if v > 1000 then Inl (ValidationError ''Order size exceeds maximum limit (1000)'')
      else Inr v)"

definition assign_size :: "OrderIntent \<Rightarrow> real \<Rightarrow> exn + OrderIntent" where
  "assign_size order v =
     (if \<not> v > 0 then Inl (ValidationError ''ensure this value is greater than 0'')
      else case validate_size v of
             Inl e \<Rightarrow> Inl e
           | Inr v' \<Rightarrow> Inr (order\<lparr> size_qty := v' \<rparr>))"

text \<open>
  The messages of \<^verbatim>\<open>validate_order_intent\<close> are f-strings over floats; they are kept as
  constructors that carry the formatted values.
\<close>

datatype verror =
    SizeBelowMinimum real real
  | SizeExceedsMaximum real real
  | NotionalExceedsMaximum real real
  | PositionExceedsMaximum real real
  | InvalidTimeInForce TimeInForce

datatype vwarning = LimitPriceOutsideRange real "real \<times> real"

record OrderValidationResult =
  valid :: bool
  errors :: "verror list"
  warnings :: "vwarning list"
  clipped_size :: "real option"
  risk_adjusted :: bool

record RiskLimits =
  max_notional :: real
  max_leverage :: real
  max_position_size :: real
  min_size :: real
  max_size :: real

definition RiskLimits_default :: RiskLimits where
  "RiskLimits_default =
     \<lparr> max_notional = 10000, max_leverage = 10, max_position_size = 1000,
       min_size = 1 / 1000, max_size = 100 \<rparr>"

definition mock_prices :: "(string \<times> real) list" where
  "mock_prices =
     [(''BTC'', 50000), (''ETH'', 3000), (''SOL'', 100), (''HYPE'', 1 / 10), (''BNB'', 300)]"

text \<open>\<^verbatim>\<open>mock_prices.get(order.symbol, 1000)\<close>\<close>

definition mock_price :: "string \<Rightarrow> real" where
  "mock_price sy = (case map_of mock_prices sy of Some p \<Rightarrow> p | None \<Rightarrow> 1000)"

definition price_bounds :: "(string \<times> real \<times> real) list" where
  "price_bounds =
     [(''BTC'', (40000, 60000)), (''ETH'', (2000, 4000)), (''SOL'', (50, 150)),
      (''HYPE'', (5 / 100, 15 / 100)), (''BNB'', (200, 400))]"

text \<open>
  The positions dictionary is an association list, and the argument is \<open>None\<close> when the
  caller passes no dictionary. \<^verbatim>\<open>current_positions.get(order.symbol, 0.0)\<close>:
\<close>

definition current_position :: "(string \<times> real) list \<Rightarrow> string \<Rightarrow> real" where
  "current_position ps sy = (case map_of ps sy of Some v \<Rightarrow> v | None \<Rightarrow> 0)"

definition new_position :: "OrderIntent \<Rightarrow> (string \<times> real) list \<Rightarrow> real" where
  "new_position order ps =
     current_position ps (symbol order)
       + (if side order = BUY then size_qty order else - size_qty order)"

text \<open>
  \<^verbatim>\<open>validate_order_intent(order, current_positions)\<close>. The local variables \<^verbatim>\<open>errors\<close>,
  \<^verbatim>\<open>clipped_size\<close> and \<^verbatim>\<open>risk_adjusted\<close> are threaded through the four checks in the
  order of the source; each check that fires overwrites \<^verbatim>\<open>clipped_size\<close>. The test
  \<^verbatim>\<open>if current_positions:\<close> fails for \<^verbatim>\<open>None\<close> and for the empty dictionary, the test
  \<^verbatim>\<open>order.limit_px\<close> fails for \<^verbatim>\<open>None\<close> and for zero.
\<close>

definition validate_order_intent ::
  "OrderIntent \<Rightarrow> (string \<times> real) list option \<Rightarrow> OrderValidationResult" where
  "validate_order_intent order current_positions =
     (let limits = RiskLimits_default;
          errors1 = (if size_qty order < min_size limits
                     then [SizeBelowMinimum (size_qty order) (min_size limits)] else []);
          (errors2, clipped2, adjusted2) =
            (if size_qty order > max_size limits
             then (errors1 @ [SizeExceedsMaximum (size_qty order) (max_size limits)],
                   Some (max_size limits), True)
             else (errors1, None, False));
          price = mock_price (symbol order);
          notional = size_qty order * price;
          (errors3, clipped3, adjusted3) =
            (if notional > max_notional limits
             then (errors2 @ [NotionalExceedsMaximum notional (max_notional limits)],
                   Some (max_notional limits / price), True)
             else (errors2, clipped2, adjusted2));
          (errors4, clipped4, adjusted4) =
            (case current_positions of
               None \<Rightarrow> (errors3, clipped3, adjusted3)
             | Some ps \<Rightarrow>
                 if ps = [] then (errors3, clipped3, adjusted3)
                 else
                   (let current_pos = current_position ps (symbol order);
                        new_pos = current_pos
                          + (if side order = BUY then size_qty order else - size_qty order)
                    in if \<bar>new_pos\<bar> > max_position_size limits
                       then
                         (let max_additional = max_position_size limits - \<bar>current_pos\<bar>
                          in (errors3 @ [PositionExceedsMaximum \<bar>new_pos\<bar>
                                           (max_position_size limits)],
                              Some (if side order = BUY
                                    then min (size_qty order) max_additional
                                    else min (size_qty order) max_additional),
                              True))
                       else (errors3, clipped3, adjusted3)));
          warnings1 =
            (case limit_px order of
               None \<Rightarrow> []
             | Some px \<Rightarrow>
                 if order_type order = LIMIT \<and> px \<noteq> 0
                 then
                   (let bounds = (case map_of price_bounds (symbol order) of
                                    Some b \<Rightarrow> b
                                  | None \<Rightarrow> (price * (8 / 10), price * (12 / 10)))
                    in if \<not> (fst bounds \<le> px \<and> px \<le> snd bounds)
                       then [LimitPriceOutsideRange px bounds] else [])
                 else []);
          errors5 = (if tif order \<notin> set [GTC, IOC]
                     then errors4 @ [InvalidTimeInForce (tif order)] else errors4)
      in \<lparr> valid = (length errors5 = 0), errors = errors5, warnings = warnings1,
           clipped_size = clipped4, risk_adjusted = adjusted4 \<rparr>)"

text \<open>
  \<^verbatim>\<open>clip_to_risk(order, current_positions)\<close>: the assignment to the copy's \<^verbatim>\<open>size\<close> is
  validated and may raise.
\<close>

definition clip_to_risk ::
  "OrderIntent \<Rightarrow> (string \<times> real) list option \<Rightarrow> exn + OrderIntent" where
  "clip_to_risk order current_positions =
     (let validation = validate_order_intent order current_positions
      in case clipped_size validation of
           Some c \<Rightarrow> assign_size order c
         | None \<Rightarrow> Inr order)"

text \<open>
  The specification's wording of the clip, for comparison with the code: each violated rule
  among size, notional and position contributes its bound (the maximum size, the notional
  cap divided by the price, the remaining position headroom), and the clipped size is the
  smallest of these.
\<close>

definition violated_bounds :: "OrderIntent \<Rightarrow> (string \<times> real) list option \<Rightarrow> real list" where
  "violated_bounds order current_positions =
     (let limits = RiskLimits_default
      in (if size_qty order > max_size limits then [max_size limits] else [])
         @ (if size_qty order * mock_price (symbol order) > max_notional limits
            then [max_notional limits / mock_price (symbol order)] else [])
         @ (case current_positions of
              None \<Rightarrow> []
            | Some ps \<Rightarrow>
                if ps \<noteq> [] \<and> \<bar>new_position order ps\<bar> > max_position_size limits
                then [max_position_size limits - \<bar>current_position ps (symbol order)\<bar>]
                else []))"

definition spec_smallest_violated_bound ::
  "OrderIntent \<Rightarrow> (string \<times> real) list option \<Rightarrow> real option" where
  "spec_smallest_violated_bound order current_positions =
     (case violated_bounds order current_positions of
        [] \<Rightarrow> None
      | b # bs \<Rightarrow> Some (fold min bs b))"

lemma mock_price_positive: "0 < mock_price sy"
  by (simp add: mock_price_def mock_prices_def)

lemma clipped_size_le_size:
  assumes "clipped_size (validate_order_intent order ps) = Some c"
  shows "c \<le> size_qty order"
proof -
  have notional: "max_notional RiskLimits_default / mock_price (symbol order) \<le> size_qty order"
    if "size_qty order * mock_price (symbol order) > max_notional RiskLimits_default"
    using that mock_price_positive [of "symbol order"] by (simp add: field_simps)
  show ?thesis
    using assms notional
    by (auto simp: validate_order_intent_def Let_def RiskLimits_default_def
        split: option.splits if_splits)
qed

text \<open>
  Whenever \<open>clip_to_risk\<close> returns, the size it returns is not above the original one.
\<close>

lemma clip_to_risk_never_increases:
  assumes "clip_to_risk order ps = Inr order'"
  shows "size_qty order' \<le> size_qty order"
proof (cases "clipped_size (validate_order_intent order ps)")
  case None
  with assms show ?thesis
    by (simp add: clip_to_risk_def Let_def)
next
  case (Some c)
  with assms have "order' = order\<lparr> size_qty := c \<rparr>"
    by (auto simp: clip_to_risk_def Let_def assign_size_def validate_size_def
        split: if_splits)
  with clipped_size_le_size [OF Some] show ?thesis
    by simp
qed

text \<open>
  Claim C4. The size that \<open>clip_to_risk\<close> returns is the clip candidate of the last rule
  that fired, not the smallest violated bound. For the intent HYPE, BUY, size 150 and a
  current HYPE position of 880, the size rule is violated with bound 100 and the position
  rule with headroom 120; the smallest violated bound is 100, and \<open>clip_to_risk\<close> returns
  the copy with size 120, which is still above the maximum order size.
\<close>

theorem clip_to_risk_not_smallest_bound:
  "clip_to_risk
     \<lparr> symbol = ''HYPE'', side = BUY, size_qty = 150, order_type = MARKET,
       intent_id = ''intent-1'', limit_px = None, tif = GTC, meta = None, created_at = 0 \<rparr>
     (Some [(''HYPE'', 880)])
   = Inr \<lparr> symbol = ''HYPE'', side = BUY, size_qty = 120, order_type = MARKET,
           intent_id = ''intent-1'', limit_px = None, tif = GTC, meta = None, created_at = 0 \<rparr>
   \<and> spec_smallest_violated_bound
       \<lparr> symbol = ''HYPE'', side = BUY, size_qty = 150, order_type = MARKET,
         intent_id = ''intent-1'', limit_px = None, tif = GTC, meta = None, created_at = 0 \<rparr>
       (Some [(''HYPE'', 880)])
     = Some 100
   \<and> max_size RiskLimits_default = 100"
  by (simp add: clip_to_risk_def validate_order_intent_def assign_size_def validate_size_def
      spec_smallest_violated_bound_def violated_bounds_def new_position_def
      current_position_def mock_price_def mock_prices_def RiskLimits_default_def Let_def)

text \<open>
  Claim C10. When the positions dictionary is non-empty, the current position of the
  intent's symbol has magnitude at or above the maximum position size, and the position
  rule fires, the clip candidate is the headroom \<open>max_position_size - |current|\<close>, which is
  zero or negative, and \<open>clip_to_risk\<close> raises a validation error on assigning it to the
  copy instead of returning a clipped intent.
\<close>

theorem clip_to_risk_raises_without_headroom:
  assumes "ps \<noteq> []" and "0 < size_qty order"
    and "\<bar>current_position ps (symbol order)\<bar> \<ge> max_position_size RiskLimits_default"
    and "\<bar>new_position order ps\<bar> > max_position_size RiskLimits_default"
  shows "clipped_size (validate_order_intent order (Some ps))
           = Some (max_position_size RiskLimits_default - \<bar>current_position ps (symbol order)\<bar>)
         \<and> max_position_size RiskLimits_default - \<bar>current_position ps (symbol order)\<bar> \<le> 0
         \<and> (\<exists>msg. clip_to_risk order (Some ps) = Inl (ValidationError msg))"
proof -
  let ?h = "max_position_size RiskLimits_default - \<bar>current_position ps (symbol order)\<bar>"
  have h: "?h \<le> 0"
    using assms(3) by simp
  then have m: "min (size_qty order) ?h = ?h"
    using assms(2) by simp
  have c: "clipped_size (validate_order_intent order (Some ps)) = Some ?h"
    using assms(1,4) m
    by (simp add: validate_order_intent_def Let_def new_position_def split: prod.splits)
  have "clip_to_risk order (Some ps) = Inl (ValidationError ''ensure this value is greater than 0'')"
    using c h by (simp add: clip_to_risk_def Let_def assign_size_def)
  with c h show ?thesis
    by blast
qed

theorem clip_to_risk_raises_without_headroom_witness:
  "[(''BTC'', 1000 :: real)] \<noteq> []
   \<and> clipped_size (validate_order_intent
        \<lparr> symbol = ''BTC'', side = BUY, size_qty = 1 / 10, order_type = MARKET,
          intent_id = ''intent-2'', limit_px = None, tif = GTC, meta = None, created_at = 0 \<rparr>
        (Some [(''BTC'', 1000)])) = Some 0
   \<and> (\<exists>msg. clip_to_risk
        \<lparr> symbol = ''BTC'', side = BUY, size_qty = 1 / 10, order_type = MARKET,
          intent_id = ''intent-2'', limit_px = None, tif = GTC, meta = None, created_at = 0 \<rparr>
        (Some [(''BTC'', 1000)]) = Inl (ValidationError msg))"
  using clip_to_risk_raises_without_headroom
    [of "[(''BTC'', 1000)]"
        "\<lparr> symbol = ''BTC'', side = BUY, size_qty = 1 / 10, order_type = MARKET,
           intent_id = ''intent-2'', limit_px = None, tif = GTC, meta = None, created_at = 0 \<rparr>"]
  by (simp add: current_position_def new_position_def RiskLimits_default_def)

section \<open>SubmissionClient (backend/exchange/hl_private.py)\<close>

datatype ErrorType = RATE_LIMIT | AUTH | INVALID | NETWORK | UNKNOWN

type_synonym payload = "(string \<times> string) list"

datatype response = DryRunResponse payload | ExchangeResponse "(string \<times> string) list"

text \<open>
  The dataclass \<^verbatim>\<open>SendResult\<close>; its fields carry the prefix \<open>sr_\<close> (the result of the order
  bus has fields of the same names).
\<close>

record SendResult =
  sr_success :: bool
  sr_order_id :: "string option"
  sr_error_type :: "ErrorType option"
  sr_error_message :: "string option"
  sr_retry_after :: "int option"
  sr_raw_response :: "response option"

text \<open>\<^verbatim>\<open>str(e)\<close> for the exceptions of the model.\<close>

fun str_exn :: "exn \<Rightarrow> string" where
  "str_exn ZeroDivisionError = ''float division by zero''"
| "str_exn (ValidationError m) = m"
| "str_exn (OSError m) = m"
| "str_exn (RuntimeError m) = m"
| "str_exn (TypeError m) = m"

record HLPrivateClient =
  max_retries :: int
  base_delay :: real
  max_delay :: real
  jitter_range :: real

definition HLPrivateClient_init :: HLPrivateClient where
  "HLPrivateClient_init =
     \<lparr> max_retries = 3, base_delay = 1, max_delay = 30, jitter_range = 1 / 10 \<rparr>"

text \<open>
  \<^verbatim>\<open>_calculate_retry_delay(attempt, retry_after)\<close>; \<open>t\<close> is the clock read of the jitter.
  The test \<^verbatim>\<open>if retry_after:\<close> fails for \<^verbatim>\<open>None\<close> and for 0. In
  \<^verbatim>\<open>2 * time.time() % 1 - 1\<close> the product is reduced modulo 1 before 1 is subtracted.
\<close>

definition calculate_retry_delay ::
  "HLPrivateClient \<Rightarrow> nat \<Rightarrow> int option \<Rightarrow> real \<Rightarrow> real" where
  "calculate_retry_delay c attempt retry_after t =
     (let backoff =
            (let delay = min (base_delay c * 2 ^ attempt) (max_delay c);
                 jitter = delay * jitter_range c * (frac (2 * t) - 1)
             in delay + jitter)
      in case retry_after of
           None \<Rightarrow> backoff
         | Some ra \<Rightarrow> if ra \<noteq> 0 then real_of_int ra else backoff)"

text \<open>
  The retry loop of \<^verbatim>\<open>send_order\<close>. The underlying submission
  \<^verbatim>\<open>_submit_order_with_retry(payload, attempt)\<close> is the argument \<open>sub\<close>: it yields, for each
  attempt, a classified \<^verbatim>\<open>SendResult\<close> or an exception (in the source it is a stub that
  always succeeds; a test replaces it). \<open>clk attempt\<close> is the clock read of the delay
  computed after that attempt. The loop returns the result together with the trace of
  what it did: each call of the underlying submission and each sleep.
\<close>

datatype event = Submitted nat | Slept real

definition max_retries_exceeded :: SendResult where
  "max_retries_exceeded =
     \<lparr> sr_success = False, sr_order_id = None, sr_error_type = Some UNKNOWN,
       sr_error_message = Some ''Max retries exceeded'', sr_retry_after = None,
       sr_raw_response = None \<rparr>"

definition unexpected_failure :: "exn \<Rightarrow> SendResult" where
  "unexpected_failure e =
     \<lparr> sr_success = False, sr_order_id = None, sr_error_type = Some UNKNOWN,
       sr_error_message = Some (str_exn e), sr_retry_after = None, sr_raw_response = None \<rparr>"

fun send_loop ::
  "HLPrivateClient \<Rightarrow> (nat \<Rightarrow> exn + SendResult) \<Rightarrow> (nat \<Rightarrow> real) \<Rightarrow> nat list
     \<Rightarrow> SendResult \<times> event list" where
  "send_loop c sub clk [] = (max_retries_exceeded, [])"
| "send_loop c sub clk (attempt # rest) =
     (case sub attempt of
        Inl e \<Rightarrow>
          if int attempt = max_retries c - 1
          then (unexpected_failure e, [Submitted attempt])
          else
            (case send_loop c sub clk rest of
               (r, tr) \<Rightarrow>
                 (r, Submitted attempt
                       # Slept (calculate_retry_delay c attempt None (clk attempt)) # tr))
      | Inr result \<Rightarrow>
          if sr_success result then (result, [Submitted attempt])
          else if sr_error_type result = Some RATE_LIMIT \<and> int attempt < max_retries c - 1
          then
            (case send_loop c sub clk rest of
               (r, tr) \<Rightarrow>
                 (r, Submitted attempt
                       # Slept (calculate_retry_delay c attempt (sr_retry_after result)
                                  (clk attempt)) # tr))
          else if sr_error_type result \<in> set [Some AUTH, Some INVALID]
          then (result, [Submitted attempt])
          else if int attempt < max_retries c - 1
          then
            (case send_loop c sub clk rest of
               (r, tr) \<Rightarrow>
                 (r, Submitted attempt
                       # Slept (calculate_retry_delay c attempt None (clk attempt)) # tr))
          else (result, [Submitted attempt]))"

text \<open>
  \<^verbatim>\<open>send_order(payload, dry_run)\<close>; \<open>uuid\<close> is the identifier drawn for the dry-run order
  id. \<^verbatim>\<open>range(self.max_retries)\<close> is the list of attempts.
\<close>

definition send_order ::
  "HLPrivateClient \<Rightarrow> (nat \<Rightarrow> exn + SendResult) \<Rightarrow> (nat \<Rightarrow> real) \<Rightarrow> payload \<Rightarrow> bool
     \<Rightarrow> string \<Rightarrow> SendResult \<times> event list" where
  "send_order c sub clk pl dry_run uuid =
     (if dry_run
      then (\<lparr> sr_success = True, sr_order_id = Some (''dry_run_'' @ uuid),
               sr_error_type = None, sr_error_message = None, sr_retry_after = None,
               sr_raw_response = Some (DryRunResponse pl) \<rparr>, [])
      else send_loop c sub clk [0..<nat (max_retries c)])"

fun is_submission :: "event \<Rightarrow> bool" where
  "is_submission (Submitted a) = True"
| "is_submission (Slept d) = False"

definition submissions :: "event list \<Rightarrow> nat" where
  "submissions tr = length (filter is_submission tr)"

definition network_failure :: "string \<Rightarrow> SendResult" where
  "network_failure m =
     \<lparr> sr_success = False, sr_order_id = None, sr_error_type = Some NETWORK,
       sr_error_message = Some m, sr_retry_after = None, sr_raw_response = None \<rparr>"

lemma send_loop_network_failures:
  assumes net: "\<forall>a. \<exists>r. sub a = Inr r \<and> \<not> sr_success r \<and> sr_error_type r = Some NETWORK"
    and n: "int n = max_retries c"
  shows "k < n \<Longrightarrow>
         sub (n - 1) = Inr (fst (send_loop c sub clk [k..<n]))
         \<and> submissions (snd (send_loop c sub clk [k..<n])) = n - k"
proof (induction "n - k" arbitrary: k)
  case 0
  then show ?case by simp
next
  case (Suc d)
  from net obtain r where r: "sub k = Inr r" "\<not> sr_success r" "sr_error_type r = Some NETWORK"
    by blast
  have unfold: "[k..<n] = k # [Suc k..<n]"
    using Suc.prems by (simp add: upt_conv_Cons)
  show ?case
  proof (cases "Suc k = n")
    case True
    then have last: "\<not> int k < max_retries c - 1" "n - 1 = k"
      using n by auto
    have "send_loop c sub clk [k..<n] = (r, [Submitted k])"
      using r last True by (simp add: unfold)
    then show ?thesis
      using r last True by (simp add: submissions_def)
  next
    case False
    then have more: "int k < max_retries c - 1" "Suc k < n"
      using Suc.prems n by auto
    have d: "d = n - Suc k"
      using Suc.hyps(2) by simp
    from Suc.hyps(1) [OF d more(2)]
    have IH: "sub (n - 1) = Inr (fst (send_loop c sub clk [Suc k..<n]))"
      "submissions (snd (send_loop c sub clk [Suc k..<n])) = n - Suc k"
      by simp_all
    obtain r' tr' where rest: "send_loop c sub clk [Suc k..<n] = (r', tr')"
      by (cases "send_loop c sub clk [Suc k..<n]") auto
    have "send_loop c sub clk [k..<n]
        = (r', Submitted k # Slept (calculate_retry_delay c k None (clk k)) # tr')"
      using r more rest by (simp add: unfold)
    then show ?thesis
      using IH rest more by (simp add: submissions_def)
  qed
qed

text \<open>
  Claim C3, as stated: with every attempt failing as Network, \<open>send_order\<close> on the default
  client (\<open>max_retries = 3\<close>) would call the underlying submission four times. It calls it
  three times.
\<close>

theorem send_order_default_not_four_submissions:
  "submissions (snd (send_order HLPrivateClient_init
      (\<lambda>a. Inr (network_failure ''connection reset'')) (\<lambda>a. 0) [] False ''u''))
   \<noteq> nat (max_retries HLPrivateClient_init + 1)"
proof -
  have three: "[0..<3] = [0, Suc 0, Suc (Suc 0)]"
    by (simp add: upt_rec)
  show ?thesis
    by (simp add: send_order_def HLPrivateClient_init_def three network_failure_def
        submissions_def)
qed

text \<open>
  Claim C3, amended. \<open>max_retries\<close> is the total number of attempts: for a client with
  \<open>max_retries > 0\<close> whose every underlying submission yields a Network-classified
  failure, \<open>send_order\<close> with \<open>dry_run = false\<close> calls the underlying submission exactly
  \<open>max_retries\<close> times (three by default) and returns the classified failure of the last
  attempt.
\<close>

theorem send_order_network_failures:
  assumes "\<forall>a. \<exists>r. sub a = Inr r \<and> \<not> sr_success r \<and> sr_error_type r = Some NETWORK"
    and "0 < max_retries c"
  shows "sub (nat (max_retries c) - 1) = Inr (fst (send_order c sub clk pl False uuid))
         \<and> submissions (snd (send_order c sub clk pl False uuid)) = nat (max_retries c)"
proof -
  have n: "int (nat (max_retries c)) = max_retries c" and k: "0 < nat (max_retries c)"
    using assms(2) by simp_all
  from send_loop_network_failures [OF assms(1) n k, where clk = clk]
  show ?thesis
    by (simp add: send_order_def)
qed

theorem send_order_network_failures_witness:
  "0 < max_retries HLPrivateClient_init
   \<and> fst (send_order HLPrivateClient_init (\<lambda>a. Inr (network_failure ''timeout'')) (\<lambda>a. 0)
        [] False ''u'') = network_failure ''timeout''
   \<and> submissions (snd (send_order HLPrivateClient_init
        (\<lambda>a. Inr (network_failure ''timeout'')) (\<lambda>a. 0) [] False ''u'')) = 3"
proof -
  have net: "\<forall>a. \<exists>r. (\<lambda>a. Inr (network_failure ''timeout'')) a = (Inr r :: exn + SendResult)
      \<and> \<not> sr_success r \<and> sr_error_type r = Some NETWORK"
    by (simp add: network_failure_def)
  have pos: "0 < max_retries HLPrivateClient_init"
    by (simp add: HLPrivateClient_init_def)
  from send_order_network_failures [OF net pos, of "\<lambda>a. 0" "[]" "''u''"]
  show ?thesis
    using pos by (simp add: HLPrivateClient_init_def)
qed

section \<open>CircuitBreaker (backend/util/breakers.py)\<close>

record BreakerConfig =
  failure_window_sec :: int
  failure_threshold :: int
  reset_after_sec :: int

definition BreakerConfig_default :: BreakerConfig where
  "BreakerConfig_default =
     \<lparr> failure_window_sec = 30, failure_threshold = 5, reset_after_sec = 60 \<rparr>"

text \<open>The deque \<^verbatim>\<open>failures\<close> is a list of timestamps, oldest first.\<close>

record CircuitBreaker =
  path :: string
  config :: BreakerConfig
  failures :: "real list"
  tripped_at :: "real option"
  last_reset :: real

text \<open>
  \<^verbatim>\<open>CircuitBreaker.is_tripped()\<close>; \<open>now\<close> is its clock read. The test
  \<^verbatim>\<open>if not self.tripped_at\<close> holds for \<^verbatim>\<open>None\<close> and for the timestamp zero. When the
  cooldown has elapsed the method clears \<^verbatim>\<open>tripped_at\<close> before it returns false, so it
  returns the breaker together with its answer.
\<close>

definition is_tripped :: "CircuitBreaker \<Rightarrow> real \<Rightarrow> CircuitBreaker \<times> bool" where
  "is_tripped b now =
     (case tripped_at b of
        None \<Rightarrow> (b, False)
      | Some t \<Rightarrow>
          if t = 0 then (b, False)
          else if now - t > real_of_int (reset_after_sec (config b))
          then (b\<lparr> tripped_at := None \<rparr>, False)
          else (b, True))"

record breaker_status =
  st_path :: string
  st_tripped :: bool
  st_failure_count :: nat
  st_last_failure :: "real option"
  st_tripped_at :: "real option"

text \<open>
  \<^verbatim>\<open>CircuitBreaker.get_status()\<close>: the dictionary is built in the order of its keys, so
  \<^verbatim>\<open>tripped_at\<close> is read after \<^verbatim>\<open>is_tripped()\<close> has run.
\<close>

definition get_status :: "CircuitBreaker \<Rightarrow> real \<Rightarrow> CircuitBreaker \<times> breaker_status" where
  "get_status b now =
     (case is_tripped b now of
        (b', tripped) \<Rightarrow>
          (b', \<lparr> st_path = path b, st_tripped = tripped,
                 st_failure_count = length (failures b'),
                 st_last_failure = (if failures b' \<noteq> [] then Some (last (failures b')) else None),
                 st_tripped_at = tripped_at b' \<rparr>))"

text \<open>
  \<^verbatim>\<open>get_all_status()\<close> over the module's dictionary \<^verbatim>\<open>_breakers\<close>, an association list in
  insertion order; \<open>clk p\<close> is the clock read made while the breaker of path \<open>p\<close> is asked.
\<close>

fun get_all_status ::
  "(string \<times> CircuitBreaker) list \<Rightarrow> (string \<Rightarrow> real)
     \<Rightarrow> (string \<times> CircuitBreaker) list \<times> (string \<times> breaker_status) list" where
  "get_all_status [] clk = ([], [])"
| "get_all_status ((p, b) # rest) clk =
     (case get_status b (clk p) of
        (b', s) \<Rightarrow>
          (case get_all_status rest clk of
             (rest', ss) \<Rightarrow> ((p, b') # rest', (p, s) # ss)))"

section \<open>BudgetGuard.get_status (backend/util/budget_guard.py)\<close>

text \<open>
  The status dictionary of the budget guard. The keys \<^verbatim>\<open>triggered_at\<close> and
  \<^verbatim>\<open>records_count\<close> are absent when there are no records; \<open>bs_records_count\<close> is \<open>None\<close>
  then.
\<close>

record budget_status =
  bs_triggered :: bool
  bs_drawdown_pct :: real
  bs_total_pnl :: real
  bs_initial_balance :: real
  bs_max_drawdown_pct :: real
  bs_triggered_at :: "real option"
  bs_records_count :: "nat option"

definition budget_get_status :: "BudgetGuard \<Rightarrow> exn + budget_status" where
  "budget_get_status g =
     (if records g = []
      then Inr \<lparr> bs_triggered = False, bs_drawdown_pct = 0, bs_total_pnl = 0,
                 bs_initial_balance = initial_balance g,
                 bs_max_drawdown_pct = max_drawdown_pct g,
                 bs_triggered_at = None, bs_records_count = None \<rparr>
      else if initial_balance g = 0 then Inl ZeroDivisionError
      else Inr \<lparr> bs_triggered = triggered g,
                 bs_drawdown_pct = drawdown_pct (window_total g) (initial_balance g),
                 bs_total_pnl = window_total g,
                 bs_initial_balance = initial_balance g,
                 bs_max_drawdown_pct = max_drawdown_pct g,
                 bs_triggered_at = triggered_at g,
                 bs_records_count = Some (length (records g)) \<rparr>)"

section \<open>LiveGuard (backend/util/live_guard.py)\<close>

text \<open>
  The state that \<^verbatim>\<open>check_live_guard\<close> reaches through module globals: the market sampler
  (\<open>None\<close> before it is started), the breakers and the budget guard. The sampler's state
  is a type parameter; its method \<^verbatim>\<open>get_health_metrics\<close>, which only reads the sampler and
  catches its own exceptions, is the parameter \<open>health\<close>.
\<close>

record health_metrics =
  hm_status :: "string option"
  hm_notes :: "string list option"

record 's live_state =
  sampler :: "'s option"
  breakers :: "(string \<times> CircuitBreaker) list"
  budget_guard :: BudgetGuard

datatype guard_info =
    DataUnavailable
  | DataDegraded string "string list"
  | BreakersActive "(string \<times> breaker_status) list" "string list"
  | BudgetTriggered budget_status real
  | AllGreen string
  | GuardError string

definition check_live_guard ::
  "('s \<Rightarrow> health_metrics) \<Rightarrow> (string \<Rightarrow> real) \<Rightarrow> 's live_state
     \<Rightarrow> 's live_state \<times> (bool \<times> string \<times> guard_info)" where
  "check_live_guard health clk st =
     (case sampler st of
        None \<Rightarrow> (st, (False, ''no_sampler'', DataUnavailable))
      | Some s \<Rightarrow>
          (let health_metrics = health s;
               data_health_status =
                 (case hm_status health_metrics of Some x \<Rightarrow> x | None \<Rightarrow> ''unknown'')
           in if data_health_status \<noteq> ''healthy''
              then (st, (False, ''data_degraded'',
                         DataDegraded data_health_status
                           (case hm_notes health_metrics of Some ns \<Rightarrow> ns | None \<Rightarrow> [])))
              else
                (case get_all_status (breakers st) clk of
                   (breakers', breaker_status) \<Rightarrow>
                     (let st1 = st\<lparr> breakers := breakers' \<rparr>;
                          breaker_active = list_ex (\<lambda>(nm, status). st_tripped status) breaker_status
                      in if breaker_active
                         then (st1, (False, ''breaker_active'',
                                     BreakersActive breaker_status
                                       (map fst (filter (\<lambda>(nm, status). st_tripped status)
                                                   breaker_status))))
                         else
                           (case budget_get_status (budget_guard st1) of
                              Inl e \<Rightarrow> (st1, (False, ''error'', GuardError (str_exn e)))
                            | Inr budget_status \<Rightarrow>
                                if bs_triggered budget_status
                                then (st1, (False, ''budget_triggered'',
                                            BudgetTriggered budget_status
                                              (bs_drawdown_pct budget_status)))
                                else (st1, (True, ''all_green'',
                                            AllGreen data_health_status)))))))"

text \<open>
  The amended frame condition is stated with two definitions of its own: the data-health
  check passes, and a breaker whose cooldown has elapsed loses its trip timestamp and is
  otherwise unchanged.
\<close>

definition data_healthy :: "('s \<Rightarrow> health_metrics) \<Rightarrow> 's live_state \<Rightarrow> bool" where
  "data_healthy health st =
     (case sampler st of
        None \<Rightarrow> False
      | Some s \<Rightarrow> hm_status (health s) = Some ''healthy'')"

definition cooldown_elapsed :: "CircuitBreaker \<Rightarrow> real \<Rightarrow> bool" where
  "cooldown_elapsed b now =
     (case tripped_at b of
        None \<Rightarrow> False
      | Some t \<Rightarrow> t \<noteq> 0 \<and> now - t > real_of_int (reset_after_sec (config b)))"

definition auto_reset :: "CircuitBreaker \<Rightarrow> real \<Rightarrow> CircuitBreaker" where
  "auto_reset b now = (if cooldown_elapsed b now then b\<lparr> tripped_at := None \<rparr> else b)"

lemma is_tripped_auto_reset: "fst (is_tripped b now) = auto_reset b now"
  by (simp add: is_tripped_def auto_reset_def cooldown_elapsed_def split: option.splits)

lemma get_status_auto_reset: "fst (get_status b now) = auto_reset b now"
  using is_tripped_auto_reset [of b now]
  by (cases "is_tripped b now") (simp add: get_status_def)

lemma get_all_status_auto_reset:
  "fst (get_all_status bs clk) = map (\<lambda>(p, b). (p, auto_reset b (clk p))) bs"
proof (induction bs)
  case Nil
  show ?case by simp
next
  case (Cons pb bs)
  obtain p b where pb: "pb = (p, b)"
    by (cases pb) auto
  show ?case
    using Cons.IH get_status_auto_reset [of b "clk p"]
    by (cases "get_status b (clk p)"; cases "get_all_status bs clk") (simp add: pb)
qed

text \<open>
  Claim C5, as stated: \<open>check_live_guard\<close> would leave every component unchanged. A breaker
  on path order-api that tripped at time 100 with a cooldown of 60 seconds is reset by a
  check at time 200: its trip timestamp is cleared.
\<close>

theorem check_live_guard_resets_breaker:
  "breakers (fst (check_live_guard
       (\<lambda>s. \<lparr> hm_status = Some ''healthy'', hm_notes = Some [] \<rparr>) (\<lambda>p. 200)
       \<lparr> sampler = Some (),
         breakers = [(''order-api'',
           \<lparr> path = ''order-api'', config = BreakerConfig_default, failures = [],
             tripped_at = Some 100, last_reset = 0 \<rparr>)],
         budget_guard = BudgetGuard_init 10 24 \<rparr>))
   = [(''order-api'',
        \<lparr> path = ''order-api'', config = BreakerConfig_default, failures = [],
          tripped_at = None, last_reset = 0 \<rparr>)]
   \<and> fst (check_live_guard
       (\<lambda>s. \<lparr> hm_status = Some ''healthy'', hm_notes = Some [] \<rparr>) (\<lambda>p. 200)
       \<lparr> sampler = Some (),
         breakers = [(''order-api'',
           \<lparr> path = ''order-api'', config = BreakerConfig_default, failures = [],
             tripped_at = Some 100, last_reset = 0 \<rparr>)],
         budget_guard = BudgetGuard_init 10 24 \<rparr>)
     \<noteq> \<lparr> sampler = Some (),
         breakers = [(''order-api'',
           \<lparr> path = ''order-api'', config = BreakerConfig_default, failures = [],
             tripped_at = Some 100, last_reset = 0 \<rparr>)],
         budget_guard = BudgetGuard_init 10 24 \<rparr>"
  by (simp add: check_live_guard_def get_status_def is_tripped_def BreakerConfig_default_def
      budget_get_status_def BudgetGuard_init_def Let_def)

text \<open>
  Claim C5, amended. \<open>check_live_guard\<close> never changes the data-health provider or the
  budget guard. When the data-health check fails it changes nothing at all. When it
  passes, the only change is the lazy reset of the breakers: a breaker whose trip
  timestamp is set and older than its cooldown has that timestamp cleared, and every
  other breaker, and every other field of every breaker, is unchanged.
\<close>

theorem check_live_guard_frame:
  "fst (check_live_guard health clk st)
   = (if data_healthy health st
      then st\<lparr> breakers := map (\<lambda>(p, b). (p, auto_reset b (clk p))) (breakers st) \<rparr>
      else st)"
proof (cases "sampler st")
  case None
  then show ?thesis
    by (simp add: check_live_guard_def data_healthy_def)
next
  case (Some s)
  show ?thesis
  proof (cases "hm_status (health s) = Some ''healthy''")
    case False
    then show ?thesis
      using Some by (auto simp: check_live_guard_def data_healthy_def Let_def
          split: option.splits)
  next
    case True
    obtain bs' ss where g: "get_all_status (breakers st) clk = (bs', ss)"
      by (cases "get_all_status (breakers st) clk") auto
    with get_all_status_auto_reset [of "breakers st" clk]
    have bs': "bs' = map (\<lambda>(p, b). (p, auto_reset b (clk p))) (breakers st)"
      by simp
    show ?thesis
      using Some True g bs'
      by (simp add: check_live_guard_def data_healthy_def Let_def split: sum.splits)
  qed
qed

theorem check_live_guard_frame_witness:
  "data_healthy (\<lambda>s. \<lparr> hm_status = Some ''healthy'', hm_notes = Some [] \<rparr>)
     \<lparr> sampler = Some (), breakers = [(''info-api'',
         \<lparr> path = ''info-api'', config = BreakerConfig_default, failures = [150],
           tripped_at = Some 150, last_reset = 0 \<rparr>)],
       budget_guard = BudgetGuard_init 10 24 \<rparr>
   \<and> fst (check_live_guard (\<lambda>s. \<lparr> hm_status = Some ''healthy'', hm_notes = Some [] \<rparr>)
       (\<lambda>p. 200)
       \<lparr> sampler = Some (), breakers = [(''info-api'',
           \<lparr> path = ''info-api'', config = BreakerConfig_default, failures = [150],
             tripped_at = Some 150, last_reset = 0 \<rparr>)],
         budget_guard = BudgetGuard_init 10 24 \<rparr>)
     = \<lparr> sampler = Some (), breakers = [(''info-api'',
           \<lparr> path = ''info-api'', config = BreakerConfig_default, failures = [150],
             tripped_at = Some 150, last_reset = 0 \<rparr>)],
         budget_guard = BudgetGuard_init 10 24 \<rparr>"
  using check_live_guard_frame
    [of "\<lambda>s. \<lparr> hm_status = Some ''healthy'', hm_notes = Some [] \<rparr>" "\<lambda>p. 200"
        "\<lparr> sampler = Some (), breakers = [(''info-api'',
           \<lparr> path = ''info-api'', config = BreakerConfig_default, failures = [150],
             tripped_at = Some 150, last_reset = 0 \<rparr>)],
          budget_guard = BudgetGuard_init 10 24 \<rparr>"]
  by (simp add: data_healthy_def auto_reset_def cooldown_elapsed_def BreakerConfig_default_def)

section \<open>IdempotencyCache (backend/exchange/order_bus.py)\<close>

text \<open>
  A cache entry is the dictionary stored under an intent id; its keys \<^verbatim>\<open>timestamp\<close> and
  \<^verbatim>\<open>created_at\<close> carry the prefix \<open>entry_\<close>. The ISO timestamp is kept as the instant it
  prints. The \<^verbatim>\<open>OrderedDict\<close> is an association list in dictionary order, least recently
  used first; the field \<^verbatim>\<open>max_size\<close> of the cache is named \<open>cache_max_size\<close>.
\<close>

record 'p cache_entry =
  order_data :: 'p
  entry_timestamp :: real
  entry_created_at :: real

record 'p IdempotencyCache =
  window_seconds :: int
  cache_max_size :: int
  cache :: "(string \<times> 'p cache_entry) list"

definition IdempotencyCache_init :: "int \<Rightarrow> int \<Rightarrow> 'p IdempotencyCache" where
  "IdempotencyCache_init window size_limit =
     \<lparr> window_seconds = window, cache_max_size = size_limit, cache = [] \<rparr>"

text \<open>
  \<^verbatim>\<open>_clean_expired()\<close>; \<open>now\<close> is its clock read. The keys collected in the first loop are
  deleted in the second; on a dictionary this keeps exactly the entries that are not
  expired, in their order.
\<close>

definition expired :: "'p IdempotencyCache \<Rightarrow> real \<Rightarrow> 'p cache_entry \<Rightarrow> bool" where
  "expired c now e \<longleftrightarrow> now - entry_created_at e > real_of_int (window_seconds c)"

definition clean_expired :: "'p IdempotencyCache \<Rightarrow> real \<Rightarrow> 'p IdempotencyCache" where
  "clean_expired c now = c\<lparr> cache := filter (\<lambda>(k, e). \<not> expired c now e) (cache c) \<rparr>"

text \<open>\<^verbatim>\<open>OrderedDict.move_to_end(key)\<close>\<close>

definition move_to_end :: "string \<Rightarrow> (string \<times> 'a) list \<Rightarrow> (string \<times> 'a) list" where
  "move_to_end k xs = filter (\<lambda>x. fst x \<noteq> k) xs @ filter (\<lambda>x. fst x = k) xs"

text \<open>
  \<^verbatim>\<open>check_and_store(intent_id, order_data)\<close>, the body under the lock. The clock reads are
  \<open>now\<close> (in \<^verbatim>\<open>_clean_expired\<close>), \<open>ts\<close> (the ISO timestamp of the entry) and \<open>created\<close>
  (the entry's \<^verbatim>\<open>created_at\<close>). \<^verbatim>\<open>popitem(last=False)\<close> removes the first entry.
\<close>

definition check_and_store ::
  "'p IdempotencyCache \<Rightarrow> string \<Rightarrow> 'p \<Rightarrow> real \<Rightarrow> real \<Rightarrow> real
     \<Rightarrow> 'p IdempotencyCache \<times> bool" where
  "check_and_store c0 iid data now ts created =
     (let c = clean_expired c0 now
      in if iid \<in> set (map fst (cache c))
         then (c\<lparr> cache := move_to_end iid (cache c) \<rparr>, True)
         else
           (let c1 = c\<lparr> cache := cache c @ [(iid, \<lparr> order_data = data, entry_timestamp = ts,
                                                   entry_created_at = created \<rparr>)] \<rparr>;
                c2 = (if int (length (cache c1)) > cache_max_size c1
                      then c1\<lparr> cache := tl (cache c1) \<rparr> else c1)
            in (c2, False)))"

text \<open>A call of \<open>check_and_store\<close> with its arguments and clock reads, and a run of calls.\<close>

record 'p cas_call =
  call_id :: string
  call_data :: 'p
  t_clean :: real
  t_iso :: real
  t_created :: real

fun run_calls ::
  "'p IdempotencyCache \<Rightarrow> 'p cas_call list \<Rightarrow> 'p IdempotencyCache \<times> bool list" where
  "run_calls c [] = (c, [])"
| "run_calls c (x # xs) =
     (case check_and_store c (call_id x) (call_data x) (t_clean x) (t_iso x) (t_created x) of
        (c', r) \<Rightarrow> (case run_calls c' xs of (c'', rs) \<Rightarrow> (c'', r # rs)))"

text \<open>
  Two states of the cache with respect to an intent id \<open>i\<close> stored at time \<open>t0\<close>: the entry
  is held, created at \<open>t0\<close>, and every entry behind it in the order has its key in \<open>U\<close>; or
  no entry for \<open>i\<close> is left.
\<close>

definition holds_entry :: "string \<Rightarrow> real \<Rightarrow> string set \<Rightarrow> 'p IdempotencyCache \<Rightarrow> bool" where
  "holds_entry i t0 U c \<longleftrightarrow>
     distinct (map fst (cache c))
     \<and> (\<exists>pre post e. cache c = pre @ (i, e) # post \<and> entry_created_at e = t0
           \<and> fst ` set post \<subseteq> U)"

definition entry_gone :: "string \<Rightarrow> 'p IdempotencyCache \<Rightarrow> bool" where
  "entry_gone i c \<longleftrightarrow> distinct (map fst (cache c)) \<and> i \<notin> fst ` set (cache c)"

lemma clean_expired_fields [simp]:
  "window_seconds (clean_expired c now) = window_seconds c"
  "cache_max_size (clean_expired c now) = cache_max_size c"
  by (simp_all add: clean_expired_def)

lemma check_and_store_fields [simp]:
  "window_seconds (fst (check_and_store c k d now ts t)) = window_seconds c"
  "cache_max_size (fst (check_and_store c k d now ts t)) = cache_max_size c"
  by (simp_all add: check_and_store_def Let_def)

lemma run_calls_fields [simp]:
  "window_seconds (fst (run_calls c xs)) = window_seconds c"
  "cache_max_size (fst (run_calls c xs)) = cache_max_size c"
proof (induction xs arbitrary: c)
  case Nil
  {
    case 1 show ?case by simp
  next
    case 2 show ?case by simp
  }
next
  case (Cons x xs)
  {
    case 1
    show ?case
      using Cons.IH(1) [of "fst (check_and_store c (call_id x) (call_data x) (t_clean x)
          (t_iso x) (t_created x))"]
      by (simp split: prod.splits) (metis check_and_store_fields(1) fst_conv)
  next
    case 2
    show ?case
      using Cons.IH(2) [of "fst (check_and_store c (call_id x) (call_data x) (t_clean x)
          (t_iso x) (t_created x))"]
      by (simp split: prod.splits) (metis check_and_store_fields(2) fst_conv)
  }
qed

lemma distinct_clean_expired:
  "distinct (map fst (cache c)) \<Longrightarrow> distinct (map fst (cache (clean_expired c now)))"
  by (simp add: clean_expired_def distinct_map_filter)

lemma keys_clean_expired:
  "fst ` set (cache (clean_expired c now)) \<subseteq> fst ` set (cache c)"
  by (auto simp: clean_expired_def)

lemma distinct_move_to_end:
  assumes "distinct (map fst xs)"
  shows "distinct (map fst (move_to_end k xs))"
proof -
  have "set (map fst (filter (\<lambda>x. fst x \<noteq> k) xs)) \<inter> set (map fst (filter (\<lambda>x. fst x = k) xs)) = {}"
    by auto
  then show ?thesis
    using assms by (simp add: move_to_end_def distinct_map_filter)
qed

lemma set_move_to_end: "set (move_to_end k xs) = set xs"
  by (auto simp: move_to_end_def)

lemma check_and_store_distinct:
  assumes "distinct (map fst (cache c))"
  shows "distinct (map fst (cache (fst (check_and_store c k d now ts t))))"
proof -
  let ?c = "clean_expired c now"
  have dc: "distinct (map fst (cache ?c))"
    using assms by (rule distinct_clean_expired)
  show ?thesis
  proof (cases "k \<in> set (map fst (cache ?c))")
    case True
    then show ?thesis
      using dc by (simp add: check_and_store_def Let_def distinct_move_to_end)
  next
    case False
    then have "distinct (map fst (cache ?c @ [(k, e)]))" for e :: "'a cache_entry"
      using dc by simp
    then show ?thesis
      using False by (auto simp: check_and_store_def Let_def map_tl distinct_tl simp del: map_append)
  qed
qed

lemma check_and_store_keys:
  "fst ` set (cache (fst (check_and_store c k d now ts t)))
     \<subseteq> fst ` set (cache (clean_expired c now)) \<union> {k}"
proof (cases "k \<in> set (map fst (cache (clean_expired c now)))")
  case True
  then show ?thesis
    by (auto simp: check_and_store_def Let_def set_move_to_end)
next
  case False
  let ?ys = "cache (clean_expired c now)
      @ [(k, \<lparr> order_data = d, entry_timestamp = ts, entry_created_at = t \<rparr>)]"
  have "set (tl ?ys) \<subseteq> set ?ys"
    by (cases ?ys) auto
  then have "set (cache (fst (check_and_store c k d now ts t))) \<subseteq> set ?ys"
    using False by (simp add: check_and_store_def Let_def)
  then show ?thesis
    by auto
qed

lemma clean_expired_split:
  assumes "cache c = pre @ (i, e) # post" and "\<not> expired c now e"
  shows "cache (clean_expired c now)
         = filter (\<lambda>(k, e). \<not> expired c now e) pre
           @ (i, e) # filter (\<lambda>(k, e). \<not> expired c now e) post"
  using assms by (simp add: clean_expired_def)

lemma move_to_end_self:
  assumes "i \<notin> fst ` set pre" and "i \<notin> fst ` set post"
  shows "move_to_end i (pre @ (i, e) # post) = (pre @ post) @ [(i, e)]"
proof -
  have "filter (\<lambda>x. fst x \<noteq> i) pre = pre" "filter (\<lambda>x. fst x \<noteq> i) post = post"
    "filter (\<lambda>x. fst x = i) pre = []" "filter (\<lambda>x. fst x = i) post = []"
    using assms by (auto simp: filter_id_conv filter_empty_conv)
  then show ?thesis
    by (simp add: move_to_end_def)
qed

lemma move_to_end_other:
  assumes "k \<noteq> i"
  shows "move_to_end k (pre @ (i, e) # post)
         = filter (\<lambda>x. fst x \<noteq> k) pre
           @ (i, e) # (filter (\<lambda>x. fst x \<noteq> k) post
                        @ filter (\<lambda>x. fst x = k) (pre @ (i, e) # post))"
  using assms by (simp add: move_to_end_def)

lemma length_le_card_keys:
  assumes "distinct (map fst xs)" and "fst ` set xs \<subseteq> U" and "finite U"
  shows "length xs \<le> card U"
proof -
  have "length xs = card (set (map fst xs))"
    using assms(1) distinct_card [of "map fst xs"] by simp
  also have "\<dots> \<le> card U"
    using assms(2,3) by (simp add: card_mono)
  finally show ?thesis .
qed

lemma holds_entry_created:
  assumes "holds_entry i t0 U c" and "(i, e) \<in> set (cache c)"
  shows "entry_created_at e = t0"
proof -
  from assms(1) obtain pre post e' where
    d: "distinct (map fst (cache c))" and c: "cache c = pre @ (i, e') # post"
    and e': "entry_created_at e' = t0"
    by (auto simp: holds_entry_def)
  have "(i, e') \<in> set (cache c)"
    by (simp add: c)
  with d assms(2) have "e = e'"
    by (rule eq_key_imp_eq_value)
  with e' show ?thesis
    by simp
qed

lemma check_and_store_miss:
  assumes "i \<notin> fst ` set (cache (clean_expired c now))"
  shows "\<not> snd (check_and_store c i d now ts t)"
  using assms by (simp add: check_and_store_def Let_def)

lemma step_holds:
  assumes H: "holds_entry i t0 U c" and fin: "finite U"
    and few: "int (card U) < cache_max_size c"
    and k: "k = i \<or> k \<in> U"
    and w: "now - t0 \<le> real_of_int (window_seconds c)"
  shows "holds_entry i t0 U (fst (check_and_store c k d now ts t))"
    and "k = i \<Longrightarrow> snd (check_and_store c k d now ts t)"
proof -
  from H obtain pre post e where
    dc: "distinct (map fst (cache c))" and c: "cache c = pre @ (i, e) # post"
    and e: "entry_created_at e = t0" and postU: "fst ` set post \<subseteq> U"
    by (auto simp: holds_entry_def)
  let ?P = "\<lambda>(k, e). \<not> expired c now e"
  let ?pre = "filter ?P pre" and ?post = "filter ?P post"
  let ?r = "fst (check_and_store c k d now ts t)"
  have ne: "\<not> expired c now e"
    using w e by (simp add: expired_def)
  have cc: "cache (clean_expired c now) = ?pre @ (i, e) # ?post"
    using c ne by (rule clean_expired_split)
  have d1: "distinct (map fst (?pre @ (i, e) # ?post))"
    using distinct_clean_expired [OF dc, of now] cc by simp
  then have ipre: "i \<notin> fst ` set ?pre" and ipost: "i \<notin> fst ` set ?post"
    by auto
  have post1U: "fst ` set ?post \<subseteq> U"
    using postU by auto
  have dr: "distinct (map fst (cache ?r))"
    using dc by (rule check_and_store_distinct)
  show step: "holds_entry i t0 U ?r"
  proof (cases "k = i")
    case True
    have "i \<in> set (map fst (cache (clean_expired c now)))"
      by (simp add: cc)
    then have "cache ?r = move_to_end i (cache (clean_expired c now))"
      using True by (simp add: check_and_store_def Let_def)
    also have "\<dots> = move_to_end i (?pre @ (i, e) # ?post)"
      by (simp only: cc)
    also have "\<dots> = (?pre @ ?post) @ [(i, e)]"
      using ipre ipost by (rule move_to_end_self)
    finally have "cache ?r = (?pre @ ?post) @ [(i, e)]" .
    then have "\<exists>pre' post' e'. cache ?r = pre' @ (i, e') # post' \<and> entry_created_at e' = t0
        \<and> fst ` set post' \<subseteq> U"
      using e by (intro exI [of _ "?pre @ ?post"] exI [of _ "[]"] exI [of _ e]) simp
    with dr show ?thesis
      by (simp add: holds_entry_def)
  next
    case False
    with k have kU: "k \<in> U"
      by simp
    show ?thesis
    proof (cases "k \<in> set (map fst (cache (clean_expired c now)))")
      case True
      let ?post' = "filter (\<lambda>x. fst x \<noteq> k) ?post
          @ filter (\<lambda>x. fst x = k) (?pre @ (i, e) # ?post)"
      have "cache ?r = move_to_end k (cache (clean_expired c now))"
        using True by (simp add: check_and_store_def Let_def)
      also have "\<dots> = move_to_end k (?pre @ (i, e) # ?post)"
        by (simp only: cc)
      also have "\<dots> = filter (\<lambda>x. fst x \<noteq> k) ?pre @ (i, e) # ?post'"
        using False by (rule move_to_end_other)
      finally have "cache ?r = filter (\<lambda>x. fst x \<noteq> k) ?pre @ (i, e) # ?post'" .
      moreover have "fst ` set ?post' \<subseteq> U"
        using post1U kU by auto
      ultimately have "\<exists>pre' post' e'. cache ?r = pre' @ (i, e') # post'
          \<and> entry_created_at e' = t0 \<and> fst ` set post' \<subseteq> U"
        using e by blast
      with dr show ?thesis
        by (simp add: holds_entry_def)
    next
      case miss: False
      let ?new = "(k, \<lparr> order_data = d, entry_timestamp = ts, entry_created_at = t \<rparr>)"
      let ?post' = "?post @ [?new]"
      let ?ys = "?pre @ (i, e) # ?post'"
      have post'U: "fst ` set ?post' \<subseteq> U"
        using post1U kU by auto
      have dpost': "distinct (map fst ?post')"
        using d1 miss cc by auto
      have len: "length ?post' \<le> card U"
        using dpost' post'U fin by (rule length_le_card_keys)
      have "cache ?r =
          (if int (length (cache (clean_expired c now) @ [?new])) > cache_max_size c
           then tl (cache (clean_expired c now) @ [?new])
           else cache (clean_expired c now) @ [?new])"
        using miss by (simp add: check_and_store_def Let_def)
      also have "cache (clean_expired c now) @ [?new] = ?ys"
        by (simp only: cc append_Cons append_assoc)
      finally have r: "cache ?r = (if int (length ?ys) > cache_max_size c then tl ?ys else ?ys)" .
      have "\<exists>pre'. cache ?r = pre' @ (i, e) # ?post'"
      proof (cases "int (length ?ys) > cache_max_size c")
        case False
        with r show ?thesis
          by auto
      next
        case True
        have "?pre \<noteq> []"
        proof
          assume "?pre = []"
          then have "int (length ?ys) = 1 + int (length ?post')"
            by simp
          with len few True show False
            by linarith
        qed
        then obtain x pre2 where "?pre = x # pre2"
          by (cases ?pre) auto
        with r True have "cache ?r = pre2 @ (i, e) # ?post'"
          by simp
        then show ?thesis
          by blast
      qed
      then have "\<exists>pre' post' e'. cache ?r = pre' @ (i, e') # post'
          \<and> entry_created_at e' = t0 \<and> fst ` set post' \<subseteq> U"
        using e post'U by blast
      with dr show ?thesis
        by (simp add: holds_entry_def)
    qed
  qed
  show "snd (check_and_store c k d now ts t)" if "k = i"
    using that cc by (simp add: check_and_store_def Let_def)
qed

lemma step_gone:
  assumes "distinct (map fst (cache c))"
    and "\<forall>e. (i, e) \<in> set (cache c) \<longrightarrow> expired c now e"
    and "k \<noteq> i"
  shows "entry_gone i (fst (check_and_store c k d now ts t))"
proof -
  have "i \<notin> fst ` set (cache (clean_expired c now))"
    using assms(2) by (auto simp: clean_expired_def)
  with check_and_store_keys [of c k d now ts t] assms(3)
  have "i \<notin> fst ` set (cache (fst (check_and_store c k d now ts t)))"
    by auto
  with check_and_store_distinct [OF assms(1)] show ?thesis
    by (simp add: entry_gone_def)
qed

text \<open>
  The calls of a run that come after its last call with id \<open>i\<close>.
\<close>

definition since_last :: "string \<Rightarrow> 'p cas_call list \<Rightarrow> 'p cas_call list" where
  "since_last i xs = rev (takeWhile (\<lambda>x. call_id x \<noteq> i) (rev xs))"

lemma since_last_snoc:
  "since_last i (xs @ [x]) = (if call_id x = i then [] else since_last i xs @ [x])"
  by (simp add: since_last_def)

lemma holds_entry_mono:
  assumes "holds_entry i t0 S c" and "S \<subseteq> U"
  shows "holds_entry i t0 U c"
proof -
  from assms(1) obtain pre post e where
    "distinct (map fst (cache c))" "cache c = pre @ (i, e) # post"
    "entry_created_at e = t0" "fst ` set post \<subseteq> S"
    by (auto simp: holds_entry_def)
  with assms(2) have "distinct (map fst (cache c))
      \<and> cache c = pre @ (i, e) # post \<and> entry_created_at e = t0 \<and> fst ` set post \<subseteq> U"
    by (meson subset_trans)
  then show ?thesis
    unfolding holds_entry_def by blast
qed

text \<open>
  A hit on the tracked id moves its entry to the most recently used end: nothing is behind
  it afterwards.
\<close>

lemma step_hit:
  assumes H: "holds_entry i t0 S c"
    and w: "now - t0 \<le> real_of_int (window_seconds c)"
  shows "holds_entry i t0 {} (fst (check_and_store c i d now ts t))"
proof -
  from H obtain pre post e where
    dc: "distinct (map fst (cache c))" and c: "cache c = pre @ (i, e) # post"
    and e: "entry_created_at e = t0"
    by (auto simp: holds_entry_def)
  let ?P = "\<lambda>(k, e). \<not> expired c now e"
  let ?pre = "filter ?P pre" and ?post = "filter ?P post"
  let ?r = "fst (check_and_store c i d now ts t)"
  have ne: "\<not> expired c now e"
    using w e by (simp add: expired_def)
  have cc: "cache (clean_expired c now) = ?pre @ (i, e) # ?post"
    using c ne by (rule clean_expired_split)
  have d1: "distinct (map fst (?pre @ (i, e) # ?post))"
    using distinct_clean_expired [OF dc, of now] cc by simp
  then have ipre: "i \<notin> fst ` set ?pre" and ipost: "i \<notin> fst ` set ?post"
    by auto
  have dr: "distinct (map fst (cache ?r))"
    using dc by (rule check_and_store_distinct)
  have "i \<in> set (map fst (cache (clean_expired c now)))"
    by (simp add: cc)
  then have "cache ?r = move_to_end i (cache (clean_expired c now))"
    by (simp add: check_and_store_def Let_def)
  also have "\<dots> = move_to_end i (?pre @ (i, e) # ?post)"
    by (simp only: cc)
  also have "\<dots> = (?pre @ ?post) @ [(i, e)]"
    using ipre ipost by (rule move_to_end_self)
  finally have "cache ?r = (?pre @ ?post) @ (i, e) # []" .
  then have "\<exists>pre' post' e'. cache ?r = pre' @ (i, e') # post' \<and> entry_created_at e' = t0
      \<and> fst ` set post' \<subseteq> {}"
    using e by (intro exI [of _ "?pre @ ?post"] exI [of _ "[]"] exI [of _ e]) simp
  with dr show ?thesis
    by (simp add: holds_entry_def)
qed

text \<open>
  One call of a run, with \<open>p\<close> the calls made since the entry of \<open>i\<close> was stored: either
  the entry is still held, with only ids called since the last call with \<open>i\<close> behind it, or
  it has expired and is gone.
\<close>

lemma step_tracked:
  assumes inv: "holds_entry i t0 (call_id ` set (since_last i p)) c
              \<or> (entry_gone i c \<and> tp - t0 > real_of_int (window_seconds c))"
    and later: "tp \<le> t_clean x"
    and within: "call_id x = i \<longrightarrow> t_clean x - t0 \<le> real_of_int (window_seconds c)"
    and few: "int (card (call_id ` set (since_last i (p @ [x])))) < cache_max_size c"
  shows "holds_entry i t0 (call_id ` set (since_last i (p @ [x])))
           (fst (check_and_store c (call_id x) (call_data x) (t_clean x) (t_iso x) (t_created x)))
         \<or> (entry_gone i
               (fst (check_and_store c (call_id x) (call_data x) (t_clean x) (t_iso x)
                  (t_created x)))
            \<and> t_clean x - t0 > real_of_int (window_seconds c))"
proof (cases "t_clean x - t0 \<le> real_of_int (window_seconds c)")
  case True
  with later have "\<not> tp - t0 > real_of_int (window_seconds c)"
    by simp
  with inv have H: "holds_entry i t0 (call_id ` set (since_last i p)) c"
    by blast
  show ?thesis
  proof (cases "call_id x = i")
    case hit: True
    have "holds_entry i t0 {}
        (fst (check_and_store c i (call_data x) (t_clean x) (t_iso x) (t_created x)))"
      using H True by (rule step_hit)
    then show ?thesis
      using hit by (simp add: since_last_snoc)
  next
    case other: False
    let ?U = "call_id ` set (since_last i (p @ [x]))"
    have U: "?U = insert (call_id x) (call_id ` set (since_last i p))"
      using other by (simp add: since_last_snoc)
    have HU: "holds_entry i t0 ?U c"
      using H by (rule holds_entry_mono) (auto simp: U)
    have fin: "finite ?U"
      by simp
    have k: "call_id x = i \<or> call_id x \<in> ?U"
      by (simp add: U)
    have "holds_entry i t0 ?U
        (fst (check_and_store c (call_id x) (call_data x) (t_clean x) (t_iso x) (t_created x)))"
      using HU fin few k True by (rule step_holds(1))
    then show ?thesis
      by (rule disjI1)
  qed
next
  case False
  with within have ki: "call_id x \<noteq> i"
    by blast
  have dc: "distinct (map fst (cache c))"
    using inv by (auto simp: holds_entry_def entry_gone_def)
  have "\<forall>e. (i, e) \<in> set (cache c) \<longrightarrow> expired c (t_clean x) e"
  proof (intro allI impI)
    fix e
    assume mem: "(i, e) \<in> set (cache c)"
    then have "\<not> entry_gone i c"
      by (force simp: entry_gone_def)
    with inv have "holds_entry i t0 (call_id ` set (since_last i p)) c"
      by blast
    then have "entry_created_at e = t0"
      using mem by (rule holds_entry_created)
    with False show "expired c (t_clean x) e"
      by (simp add: expired_def)
  qed
  with dc have "entry_gone i
      (fst (check_and_store c (call_id x) (call_data x) (t_clean x) (t_iso x) (t_created x)))"
    using ki by (rule step_gone)
  with False show ?thesis
    by simp
qed

lemma run_calls_tracked:
  "holds_entry i t0 (call_id ` set (since_last i p)) c
     \<or> (entry_gone i c \<and> tp - t0 > real_of_int (window_seconds c)) \<Longrightarrow>
   sorted (tp # map t_clean xs) \<Longrightarrow>
   \<forall>x \<in> set xs. call_id x = i \<longrightarrow> t_clean x - t0 \<le> real_of_int (window_seconds c) \<Longrightarrow>
   \<forall>n \<le> length xs.
      int (card (call_id ` set (since_last i (p @ take n xs)))) < cache_max_size c \<Longrightarrow>
   holds_entry i t0 (call_id ` set (since_last i (p @ xs))) (fst (run_calls c xs))
   \<or> (entry_gone i (fst (run_calls c xs))
      \<and> last (tp # map t_clean xs) - t0 > real_of_int (window_seconds c))"
proof (induction xs arbitrary: p c tp)
  case Nil
  then show ?case by simp
next
  case (Cons x xs)
  define c1 where
    "c1 = fst (check_and_store c (call_id x) (call_data x) (t_clean x) (t_iso x) (t_created x))"
  have fields: "window_seconds c1 = window_seconds c" "cache_max_size c1 = cache_max_size c"
    by (simp_all add: c1_def)
  have later: "tp \<le> t_clean x"
    using Cons.prems(2) by simp
  have within: "call_id x = i \<longrightarrow> t_clean x - t0 \<le> real_of_int (window_seconds c)"
    using Cons.prems(3) by simp
  have "Suc 0 \<le> length (x # xs)"
    by simp
  with Cons.prems(4)
  have "int (card (call_id ` set (since_last i (p @ take (Suc 0) (x # xs))))) < cache_max_size c"
    by blast
  then have few: "int (card (call_id ` set (since_last i (p @ [x])))) < cache_max_size c"
    by simp
  have inv1: "holds_entry i t0 (call_id ` set (since_last i (p @ [x]))) c1
      \<or> (entry_gone i c1 \<and> t_clean x - t0 > real_of_int (window_seconds c1))"
    unfolding c1_def fields [unfolded c1_def]
    using Cons.prems(1) later within few by (rule step_tracked)
  have sorted1: "sorted (t_clean x # map t_clean xs)"
    using Cons.prems(2) by simp
  have within1: "\<forall>y \<in> set xs. call_id y = i
      \<longrightarrow> t_clean y - t0 \<le> real_of_int (window_seconds c1)"
    using Cons.prems(3) fields by simp
  have few1: "\<forall>n \<le> length xs.
      int (card (call_id ` set (since_last i ((p @ [x]) @ take n xs)))) < cache_max_size c1"
  proof (intro allI impI)
    fix n
    assume "n \<le> length xs"
    then have "Suc n \<le> length (x # xs)"
      by simp
    with Cons.prems(4)
    have "int (card (call_id ` set (since_last i (p @ take (Suc n) (x # xs)))))
        < cache_max_size c"
      by blast
    then show "int (card (call_id ` set (since_last i ((p @ [x]) @ take n xs))))
        < cache_max_size c1"
      by (simp add: fields)
  qed
  have run: "fst (run_calls c (x # xs)) = fst (run_calls c1 xs)"
    by (simp add: c1_def split: prod.splits)
  from Cons.IH [OF inv1 sorted1 within1 few1] show ?case
    by (simp only: run) (simp add: fields)
qed

lemma first_store_holds:
  assumes dc: "distinct (map fst (cache c0))"
    and first: "check_and_store c0 i d0 now0 ts0 t0 = (c1, False)"
    and room: "0 < cache_max_size c0"
  shows "holds_entry i t0 U c1"
proof -
  let ?cl = "cache (clean_expired c0 now0)"
  let ?new = "(i, \<lparr> order_data = d0, entry_timestamp = ts0, entry_created_at = t0 \<rparr>)"
  have miss: "i \<notin> set (map fst ?cl)"
    using first by (auto simp: check_and_store_def Let_def split: if_splits)
  have c1: "cache c1 =
      (if int (length (?cl @ [?new])) > cache_max_size c0 then tl (?cl @ [?new])
       else ?cl @ [?new])"
    using first miss by (auto simp: check_and_store_def Let_def)
  have "\<exists>pre. cache c1 = pre @ [?new]"
  proof (cases "int (length (?cl @ [?new])) > cache_max_size c0")
    case False
    with c1 show ?thesis
      by auto
  next
    case True
    with room have "?cl \<noteq> []"
      by auto
    then obtain x rest where "?cl = x # rest"
      by (cases ?cl) auto
    with c1 True have "cache c1 = rest @ [?new]"
      by simp
    then show ?thesis
      by blast
  qed
  then have "\<exists>pre post e. cache c1 = pre @ (i, e) # post \<and> entry_created_at e = t0
      \<and> fst ` set post \<subseteq> U"
    by force
  moreover have "distinct (map fst (cache c1))"
    using check_and_store_distinct [OF dc, of i d0 now0 ts0 t0] first by simp
  ultimately show ?thesis
    by (simp add: holds_entry_def)
qed

lemma tracked_result:
  assumes fin: "finite U" and few: "int (card U) < cache_max_size c"
    and inv: "holds_entry i t0 U c
              \<or> (entry_gone i c \<and> tp - t0 > real_of_int (window_seconds c))"
    and later: "tp \<le> now"
  shows "snd (check_and_store c i d now ts t) \<longleftrightarrow> now - t0 \<le> real_of_int (window_seconds c)"
proof (cases "now - t0 \<le> real_of_int (window_seconds c)")
  case True
  with later inv have "holds_entry i t0 U c"
    by auto
  then have "snd (check_and_store c i d now ts t)"
    using step_holds(2) [of i t0 U c i now d ts t] fin few True by simp
  with True show ?thesis
    by simp
next
  case False
  have "i \<notin> fst ` set (cache (clean_expired c now))"
  proof
    assume "i \<in> fst ` set (cache (clean_expired c now))"
    then obtain e where mem: "(i, e) \<in> set (cache c)" and fresh: "\<not> expired c now e"
      by (auto simp: clean_expired_def)
    from mem have "\<not> entry_gone i c"
      by (force simp: entry_gone_def)
    with inv have "holds_entry i t0 U c"
      by blast
    then have "entry_created_at e = t0"
      using mem by (rule holds_entry_created)
    with False fresh show False
      by (simp add: expired_def)
  qed
  then have "\<not> snd (check_and_store c i d now ts t)"
    by (rule check_and_store_miss)
  with False show ?thesis
    by simp
qed

text \<open>
  Every cache reached from the empty one has distinct keys, as a dictionary has.
\<close>

lemma run_calls_distinct:
  "distinct (map fst (cache c)) \<Longrightarrow> distinct (map fst (cache (fst (run_calls c xs))))"
proof (induction xs arbitrary: c)
  case Nil
  then show ?case by simp
next
  case (Cons x xs)
  let ?c1 = "fst (check_and_store c (call_id x) (call_data x) (t_clean x) (t_iso x) (t_created x))"
  have "fst (run_calls c (x # xs)) = fst (run_calls ?c1 xs)"
    by (simp split: prod.splits)
  moreover have "distinct (map fst (cache ?c1))"
    using Cons.prems by (rule check_and_store_distinct)
  ultimately show ?case
    using Cons.IH by simp
qed

text \<open>
  Claim C1, as stated: a second call with an id inside the window would return true
  whatever happens in between. With \<open>max_size = 2\<close> and a window of 60 seconds, the calls
  a, b, c, a at times 0, 1, 2, 3 all return false: storing c evicts the entry of a, the
  least recently used one, and the second call with a finds nothing.
\<close>

theorem check_and_store_false_again_after_eviction:
  "snd (run_calls (IdempotencyCache_init 60 2)
     [\<lparr> call_id = ''a'', call_data = (), t_clean = 0, t_iso = 0, t_created = 0 \<rparr>,
      \<lparr> call_id = ''b'', call_data = (), t_clean = 1, t_iso = 1, t_created = 1 \<rparr>,
      \<lparr> call_id = ''c'', call_data = (), t_clean = 2, t_iso = 2, t_created = 2 \<rparr>,
      \<lparr> call_id = ''a'', call_data = (), t_clean = 3, t_iso = 3, t_created = 3 \<rparr>])
   = [False, False, False, False]"
  by (simp add: check_and_store_def clean_expired_def expired_def move_to_end_def
      IdempotencyCache_init_def Let_def del: set_filter)

text \<open>
  Claim C1, amended. Let a call with id \<open>i\<close> return false and store its entry with creation
  time \<open>t0\<close>. Let any calls follow, with non-decreasing clock reads, such that every call
  with id \<open>i\<close> among them comes no later than \<open>window_seconds\<close> after \<open>t0\<close>, and such that at
  every point of the run fewer than \<open>max_size\<close> distinct ids have been called since the last
  call with \<open>i\<close> (a call with \<open>i\<close> makes its entry the most recently used one again). Then
  a further call with id \<open>i\<close> at time \<open>now\<close> returns true exactly when
  \<open>now - t0 \<le> window_seconds\<close>: every call with the id inside the window returns true, so
  false is returned once, and the first call after the window has elapsed returns false
  again. When \<open>max_size\<close> or more distinct other ids are called since the last call with
  \<open>i\<close>, the entry can be evicted, as in the run a, b, c, a above, and nothing is claimed.
\<close>

theorem check_and_store_once_per_window:
  assumes "distinct (map fst (cache c0))"
    and "check_and_store c0 i d0 now0 ts0 t0 = (c1, False)"
    and "sorted (map t_clean mid @ [now])"
    and "\<forall>x \<in> set mid. call_id x = i
           \<longrightarrow> t_clean x - t0 \<le> real_of_int (window_seconds c0)"
    and "\<forall>n \<le> length mid.
           int (card (call_id ` set (since_last i (take n mid)))) < cache_max_size c0"
  shows "snd (check_and_store (fst (run_calls c1 mid)) i d now ts t)
         \<longleftrightarrow> now - t0 \<le> real_of_int (window_seconds c0)"
proof -
  let ?U = "call_id ` set (since_last i mid)"
  let ?tp = "hd (map t_clean mid @ [now])"
  let ?c2 = "fst (run_calls c1 mid)"
  have c1: "c1 = fst (check_and_store c0 i d0 now0 ts0 t0)"
    using assms(2) by simp
  have w1: "window_seconds c1 = window_seconds c0" and m1: "cache_max_size c1 = cache_max_size c0"
    by (simp_all add: c1)
  have "int (card (call_id ` set (since_last i (take 0 mid)))) < cache_max_size c0"
    using assms(5) by blast
  then have room: "0 < cache_max_size c0"
    by (simp add: since_last_def)
  have "holds_entry i t0 {} c1"
    using assms(1,2) room by (rule first_store_holds)
  then have inv0: "holds_entry i t0 (call_id ` set (since_last i [])) c1
      \<or> (entry_gone i c1 \<and> ?tp - t0 > real_of_int (window_seconds c1))"
    by (simp add: since_last_def)
  have srt: "sorted (?tp # map t_clean mid)"
    using assms(3) by (cases mid) (simp_all add: sorted_append)
  have within: "\<forall>x \<in> set mid. call_id x = i
      \<longrightarrow> t_clean x - t0 \<le> real_of_int (window_seconds c1)"
    using assms(4) w1 by simp
  have few: "\<forall>n \<le> length mid.
      int (card (call_id ` set (since_last i ([] @ take n mid)))) < cache_max_size c1"
    using assms(5) m1 by simp
  have inv: "holds_entry i t0 ?U ?c2
      \<or> (entry_gone i ?c2
         \<and> last (?tp # map t_clean mid) - t0 > real_of_int (window_seconds ?c2))"
    using run_calls_tracked [OF inv0 srt within few] by simp
  have later: "last (?tp # map t_clean mid) \<le> now"
  proof (cases mid)
    case Nil
    then show ?thesis by simp
  next
    case (Cons x xs)
    then have "last (?tp # map t_clean mid) \<in> set (map t_clean mid)"
      by (metis last_ConsR last_in_set list.map_disc_iff list.distinct(1))
    with assms(3) show ?thesis
      by (auto simp: sorted_append)
  qed
  have fin: "finite ?U"
    by simp
  have "int (card (call_id ` set (since_last i (take (length mid) mid)))) < cache_max_size c0"
    using assms(5) by blast
  then have few2: "int (card ?U) < cache_max_size ?c2"
    by (simp add: m1)
  from tracked_result [OF fin few2 inv later, of d ts t] show ?thesis
    by (simp add: w1)
qed

text \<open>
  The theorem at a cache of size 2 with the default window, on the run a, b, a, c, a at
  times 0 to 4: a is stored, b is stored, the second call with a makes a the most recently
  used entry, so storing c evicts b and not a, and the last call with a returns true. Two
  other ids occur in the run, but never more than one since the last call with a.
\<close>

theorem check_and_store_once_per_window_witness:
  "distinct (map fst (cache (IdempotencyCache_init 60 2 :: unit IdempotencyCache)))
   \<and> check_and_store (IdempotencyCache_init 60 2) ''a'' () 0 0 0
       = (\<lparr> window_seconds = 60, cache_max_size = 2,
            cache = [(''a'', \<lparr> order_data = (), entry_timestamp = 0,
                               entry_created_at = 0 \<rparr>)] \<rparr>, False)
   \<and> snd (run_calls
        \<lparr> window_seconds = 60, cache_max_size = 2,
          cache = [(''a'', \<lparr> order_data = (), entry_timestamp = 0,
                             entry_created_at = 0 \<rparr>)] \<rparr>
        [\<lparr> call_id = ''b'', call_data = (), t_clean = 1, t_iso = 1, t_created = 1 \<rparr>,
         \<lparr> call_id = ''a'', call_data = (), t_clean = 2, t_iso = 2, t_created = 2 \<rparr>,
         \<lparr> call_id = ''c'', call_data = (), t_clean = 3, t_iso = 3, t_created = 3 \<rparr>])
     = [False, True, False]
   \<and> snd (check_and_store
       (fst (run_calls
          \<lparr> window_seconds = 60, cache_max_size = 2,
            cache = [(''a'', \<lparr> order_data = (), entry_timestamp = 0,
                               entry_created_at = 0 \<rparr>)] \<rparr>
          [\<lparr> call_id = ''b'', call_data = (), t_clean = 1, t_iso = 1, t_created = 1 \<rparr>,
           \<lparr> call_id = ''a'', call_data = (), t_clean = 2, t_iso = 2, t_created = 2 \<rparr>,
           \<lparr> call_id = ''c'', call_data = (), t_clean = 3, t_iso = 3, t_created = 3 \<rparr>]))
       ''a'' () 4 4 4)"
proof -
  let ?c0 = "IdempotencyCache_init 60 2 :: unit IdempotencyCache"
  let ?c1 = "\<lparr> window_seconds = 60, cache_max_size = 2,
      cache = [(''a'', \<lparr> order_data = (), entry_timestamp = 0, entry_created_at = 0 \<rparr>)] \<rparr>"
  let ?mid = "[\<lparr> call_id = ''b'', call_data = (), t_clean = 1, t_iso = 1, t_created = 1 \<rparr>,
      \<lparr> call_id = ''a'', call_data = (), t_clean = 2, t_iso = 2, t_created = 2 \<rparr>,
      \<lparr> call_id = ''c'', call_data = (), t_clean = 3, t_iso = 3, t_created = 3 \<rparr>]"
  have h1: "distinct (map fst (cache ?c0))"
    by (simp add: IdempotencyCache_init_def)
  have h2: "check_and_store ?c0 ''a'' () 0 0 0 = (?c1, False)"
    by (simp add: check_and_store_def clean_expired_def IdempotencyCache_init_def Let_def)
  have h3: "sorted (map t_clean ?mid @ [4])"
    by simp
  have h4: "\<forall>x \<in> set ?mid. call_id x = ''a''
      \<longrightarrow> t_clean x - 0 \<le> real_of_int (window_seconds ?c0)"
    by (simp add: IdempotencyCache_init_def)
  have h5: "\<forall>n \<le> length ?mid.
      int (card (call_id ` set (since_last ''a'' (take n ?mid)))) < cache_max_size ?c0"
  proof (intro allI impI)
    fix n
    assume "n \<le> length ?mid"
    then have "n = 0 \<or> n = 1 \<or> n = 2 \<or> n = 3"
      by auto
    then show "int (card (call_id ` set (since_last ''a'' (take n ?mid))))
        < cache_max_size ?c0"
      by (auto simp: since_last_def IdempotencyCache_init_def)
  qed
  have mid: "snd (run_calls ?c1 ?mid) = [False, True, False]"
    by (simp add: check_and_store_def clean_expired_def expired_def move_to_end_def Let_def
        del: set_filter)
  from check_and_store_once_per_window [OF h1 h2 h3 h4 h5, of "()" 4 4]
  show ?thesis
    using h1 h2 mid by (simp add: IdempotencyCache_init_def)
qed

section \<open>OrderBus (backend/exchange/order_bus.py)\<close>

text \<open>
  \<^verbatim>\<open>int(x)\<close> on a float truncates towards zero; \<^verbatim>\<open>str\<close> of an int prints it in decimal.
\<close>

definition py_int :: "real \<Rightarrow> int" where
  "py_int x = (if x \<ge> 0 then \<lfloor>x\<rfloor> else \<lceil>x\<rceil>)"

fun digits :: "nat \<Rightarrow> string" where
  "digits n =
     (if n < 10 then [''0123456789'' ! n]
      else digits (n div 10) @ [''0123456789'' ! (n mod 10)])"

declare digits.simps [simp del]

definition str_int :: "int \<Rightarrow> string" where
  "str_int i = (if i < 0 then ''-'' @ digits (nat (- i)) else digits (nat i))"

text \<open>
  The result of \<^verbatim>\<open>submit\<close>. Its error message is either a fixed text or the validation
  errors joined by \<^verbatim>\<open>"; "\<close>; the field \<^verbatim>\<open>timestamp\<close> is named \<open>res_timestamp\<close>.
\<close>

datatype message = Text string | JoinedErrors "verror list"

record EnqueuedResult =
  success :: bool
  order_id :: "string option"
  idempotent :: bool
  validation_result :: "OrderValidationResult option"
  error_message :: "message option"
  res_timestamp :: real

text \<open>
  The audit events that \<^verbatim>\<open>submit\<close> writes: \<^verbatim>\<open>order_rejected\<close> (intent id, errors,
  timestamp), \<^verbatim>\<open>order_submitted\<close> (order id, intent id, symbol, side, size, type,
  warnings, timestamp) and \<^verbatim>\<open>order_error\<close> (intent id, error text, timestamp).
\<close>

datatype audit_event =
    OrderRejected string "verror list" real
  | OrderSubmitted string string string OrderSide real OrderType "vwarning list" real
  | OrderError string string real

record pending_order =
  po_intent_id :: string
  po_order_intent :: OrderIntent
  po_status :: string
  po_created_at :: real

text \<open>
  The bus: its cache, the lines of the audit file (the append-only JSONL file at
  \<^verbatim>\<open>audit_log_path\<close>) and the dictionary of pending orders. The constructor builds the
  cache with a window of 60 seconds and the default maximum size of 1000.
\<close>

record OrderBus =
  idempotency_cache :: "OrderIntent IdempotencyCache"
  audit_log :: "audit_event list"
  pending_orders :: "(string \<times> pending_order) list"

definition OrderBus_init :: OrderBus where
  "OrderBus_init =
     \<lparr> idempotency_cache = IdempotencyCache_init 60 1000, audit_log = [],
       pending_orders = [] \<rparr>"

text \<open>Assignment \<^verbatim>\<open>d[k] = v\<close> on a dictionary kept in insertion order.\<close>

definition dict_set :: "string \<Rightarrow> 'v \<Rightarrow> (string \<times> 'v) list \<Rightarrow> (string \<times> 'v) list" where
  "dict_set k v xs =
     (if k \<in> fst ` set xs then map (\<lambda>(k', v'). if k' = k then (k', v) else (k', v')) xs
      else xs @ [(k, v)])"

text \<open>
  \<^verbatim>\<open>_log_audit_event(event_data)\<close>. The outcome of opening and writing the file is the
  argument \<open>outcome\<close>: \<open>None\<close> when the line is appended, \<open>Some e\<close> when the attempt raises
  \<open>e\<close>. The first definition is the body of the \<^verbatim>\<open>try\<close>, the second adds the handler of
  \<^verbatim>\<open>except Exception\<close>, which logs the failure and returns normally.
\<close>

definition log_audit_event_try :: "OrderBus \<Rightarrow> audit_event \<Rightarrow> exn option \<Rightarrow> exn + OrderBus" where
  "log_audit_event_try bus ev outcome =
     (case outcome of
        None \<Rightarrow> Inr (bus\<lparr> audit_log := audit_log bus @ [ev] \<rparr>)
      | Some e \<Rightarrow> Inl e)"

definition log_audit_event :: "OrderBus \<Rightarrow> audit_event \<Rightarrow> exn option \<Rightarrow> exn + OrderBus" where
  "log_audit_event bus ev outcome =
     (case log_audit_event_try bus ev outcome of
        Inr bus' \<Rightarrow> Inr bus'
      | Inl e \<Rightarrow> Inr bus)"

text \<open>
  \<^verbatim>\<open>submit\<close> hands the dictionary \<^verbatim>\<open>current_positions\<close> of its caller to
  \<^verbatim>\<open>validate_order_intent\<close> and \<^verbatim>\<open>clip_to_risk\<close> as it is; the annotation
  \<^verbatim>\<open>Dict[str, float]\<close> is not enforced. A value of the dictionary is a float, \<^verbatim>\<open>None\<close> or a
  string here. The position rule evaluates \<^verbatim>\<open>current_pos + (order.size ...)\<close> on the value
  stored under the order's symbol, which raises a \<^verbatim>\<open>TypeError\<close> unless the value is a
  number; the statements before it assign local variables only, and no other value of
  the dictionary is read.
\<close>

datatype pyval = PyFloat real | PyNone | PyStr string

definition quoted :: "string \<Rightarrow> string" where
  "quoted s = [CHR 0x27] @ s @ [CHR 0x27]"

definition double_quoted :: "string \<Rightarrow> string" where
  "double_quoted s = [CHR 0x22] @ s @ [CHR 0x22]"

text \<open>The exception of \<^verbatim>\<open>v + x\<close> for a float \<^verbatim>\<open>x\<close>, if there is one.\<close>

fun add_float_error :: "pyval \<Rightarrow> exn option" where
  "add_float_error (PyFloat r) = None"
| "add_float_error PyNone =
     Some (TypeError (''unsupported operand type(s) for +: '' @ quoted ''NoneType''
                      @ '' and '' @ quoted ''float''))"
| "add_float_error (PyStr s) =
     Some (TypeError (''can only concatenate str (not '' @ double_quoted ''float''
                      @ '') to str''))"

definition position_type_error ::
  "OrderIntent \<Rightarrow> (string \<times> pyval) list option \<Rightarrow> exn option" where
  "position_type_error order current_positions =
     (case current_positions of
        None \<Rightarrow> None
      | Some ps \<Rightarrow>
          if ps = [] then None
          else (case map_of ps (symbol order) of
                  None \<Rightarrow> None
                | Some v \<Rightarrow> add_float_error v))"

text \<open>
  The dictionary as the float-valued one of the section on \<open>OrderIntent\<close>; an entry that
  is not a float is never read when this is used, and stands as 0.
\<close>

fun as_float :: "pyval \<Rightarrow> real" where
  "as_float (PyFloat r) = r"
| "as_float PyNone = 0"
| "as_float (PyStr s) = 0"

definition float_positions :: "(string \<times> pyval) list \<Rightarrow> (string \<times> real) list" where
  "float_positions ps = map (\<lambda>(k, v). (k, as_float v)) ps"

text \<open>
  \<^verbatim>\<open>validate_order_intent\<close> and \<^verbatim>\<open>clip_to_risk\<close> as \<^verbatim>\<open>submit\<close> calls them, on a dictionary
  of any values. \<^verbatim>\<open>clip_to_risk\<close> begins with a call of \<^verbatim>\<open>validate_order_intent\<close>.
\<close>

definition validate_order_intent_dyn ::
  "OrderIntent \<Rightarrow> (string \<times> pyval) list option \<Rightarrow> exn + OrderValidationResult" where
  "validate_order_intent_dyn order current_positions =
     (case position_type_error order current_positions of
        Some e \<Rightarrow> Inl e
      | None \<Rightarrow>
          Inr (validate_order_intent order (map_option float_positions current_positions)))"

definition clip_to_risk_dyn ::
  "OrderIntent \<Rightarrow> (string \<times> pyval) list option \<Rightarrow> exn + OrderIntent" where
  "clip_to_risk_dyn order current_positions =
     (case position_type_error order current_positions of
        Some e \<Rightarrow> Inl e
      | None \<Rightarrow> clip_to_risk order (map_option float_positions current_positions))"

text \<open>
  The clock reads of one \<^verbatim>\<open>submit\<close> call, named by the place that makes them, and the
  places of the call that write to the audit file. A call is run against an environment:
  \<open>clk\<close> gives the clock reads and \<open>io\<close> the outcome of the write at each place.
\<close>

datatype site =
    CleanNow | StoreIso | StoreCreated | IdempotentTs | RejectedEventTs | RejectedTs
  | OrderIdNow | PendingCreatedAt | SubmittedEventTs | SubmittedTs | ErrorEventTs | ErrorTs

datatype write_site = RejectedWrite | SubmittedWrite | ErrorWrite

text \<open>
  Steps 2 to 7 of \<^verbatim>\<open>submit\<close>, for an intent that the cache reported as new: the part of the
  \<^verbatim>\<open>try\<close> block after the idempotency check. It returns the bus as the statements
  executed so far have left it, and either the result or the exception raised.
\<close>

definition process_new_intent ::
  "OrderBus \<Rightarrow> OrderIntent \<Rightarrow> (string \<times> pyval) list option \<Rightarrow> (site \<Rightarrow> real)
     \<Rightarrow> (write_site \<Rightarrow> exn option) \<Rightarrow> OrderBus \<times> (exn + EnqueuedResult)" where
  "process_new_intent bus order_intent current_positions clk io =
     (case validate_order_intent_dyn order_intent current_positions of
        Inl e \<Rightarrow> (bus, Inl e)
      | Inr validation \<Rightarrow>
          if \<not> valid validation
          then
            (case log_audit_event bus
                    (OrderRejected (intent_id order_intent) (errors validation)
                       (clk RejectedEventTs)) (io RejectedWrite) of
               Inl e \<Rightarrow> (bus, Inl e)
             | Inr bus1 \<Rightarrow>
                 (bus1,
                  Inr \<lparr> success = False, order_id = None, idempotent = False,
                        validation_result = Some validation,
                        error_message = Some (JoinedErrors (errors validation)),
                        res_timestamp = clk RejectedTs \<rparr>))
          else
            (case (if risk_adjusted validation
                   then clip_to_risk_dyn order_intent current_positions
                   else Inr order_intent) of
               Inl e \<Rightarrow> (bus, Inl e)
             | Inr clipped \<Rightarrow>
                 (let oid = ''ord_'' @ intent_id clipped @ ''_''
                              @ str_int (py_int (clk OrderIdNow));
                      bus1 = bus\<lparr> pending_orders :=
                               dict_set oid
                                 \<lparr> po_intent_id = intent_id clipped,
                                   po_order_intent = clipped,
                                   po_status = ''pending'',
                                   po_created_at = clk PendingCreatedAt \<rparr>
                                 (pending_orders bus) \<rparr>
                  in case log_audit_event bus1
                            (OrderSubmitted oid (intent_id clipped) (symbol clipped)
                               (side clipped) (size_qty clipped) (order_type clipped)
                               (warnings validation) (clk SubmittedEventTs))
                            (io SubmittedWrite) of
                       Inl e \<Rightarrow> (bus1, Inl e)
                     | Inr bus2 \<Rightarrow>
                         (bus2,
                          Inr \<lparr> success = True, order_id = Some oid, idempotent = False,
                                validation_result = Some validation,
                                error_message = None,
                                res_timestamp = clk SubmittedTs \<rparr>))))"

text \<open>The whole \<^verbatim>\<open>try\<close> block of \<^verbatim>\<open>submit\<close>: the idempotency check, then steps 2 to 7.\<close>

definition submit_try ::
  "OrderBus \<Rightarrow> OrderIntent \<Rightarrow> (string \<times> pyval) list option \<Rightarrow> (site \<Rightarrow> real)
     \<Rightarrow> (write_site \<Rightarrow> exn option) \<Rightarrow> OrderBus \<times> (exn + EnqueuedResult)" where
  "submit_try bus order_intent current_positions clk io =
     (case check_and_store (idempotency_cache bus) (intent_id order_intent) order_intent
             (clk CleanNow) (clk StoreIso) (clk StoreCreated) of
        (cache', is_idempotent) \<Rightarrow>
          (let bus1 = bus\<lparr> idempotency_cache := cache' \<rparr>
           in if is_idempotent
              then (bus1,
                    Inr \<lparr> success = False, order_id = None, idempotent = True,
                          validation_result = None,
                          error_message = Some (Text ''Order intent already processed''),
                          res_timestamp = clk IdempotentTs \<rparr>)
              else process_new_intent bus1 order_intent current_positions clk io))"

text \<open>
  \<^verbatim>\<open>submit(order_intent, current_positions)\<close>: the \<^verbatim>\<open>try\<close> block and the handler of
  \<^verbatim>\<open>except Exception\<close>, which writes the \<^verbatim>\<open>order_error\<close> event and returns the failure.
  An exception raised inside the handler would leave \<^verbatim>\<open>submit\<close>.
\<close>

definition submit ::
  "OrderBus \<Rightarrow> OrderIntent \<Rightarrow> (string \<times> pyval) list option \<Rightarrow> (site \<Rightarrow> real)
     \<Rightarrow> (write_site \<Rightarrow> exn option) \<Rightarrow> exn + (OrderBus \<times> EnqueuedResult)" where
  "submit bus order_intent current_positions clk io =
     (case submit_try bus order_intent current_positions clk io of
        (bus', Inr result) \<Rightarrow> Inr (bus', result)
      | (bus', Inl e) \<Rightarrow>
          (case log_audit_event bus'
                  (OrderError (intent_id order_intent) (str_exn e) (clk ErrorEventTs))
                  (io ErrorWrite) of
             Inl e' \<Rightarrow> Inl e'
           | Inr bus'' \<Rightarrow>
               Inr (bus'',
                    \<lparr> success = False, order_id = None, idempotent = False,
                      validation_result = None, error_message = Some (Text (str_exn e)),
                      res_timestamp = clk ErrorTs \<rparr>)))"

text \<open>
  A run of \<^verbatim>\<open>submit\<close> calls, each with its arguments and its environment; the run ends at
  the first call that raises.
\<close>

fun submit_each ::
  "OrderBus
     \<Rightarrow> (OrderIntent \<times> (string \<times> pyval) list option \<times> (site \<Rightarrow> real)
          \<times> (write_site \<Rightarrow> exn option)) list
     \<Rightarrow> exn + (OrderBus \<times> EnqueuedResult list)" where
  "submit_each bus [] = Inr (bus, [])"
| "submit_each bus ((oi, ps, clk, io) # rest) =
     (case submit bus oi ps clk io of
        Inl e \<Rightarrow> Inl e
      | Inr (bus', r) \<Rightarrow>
          (case submit_each bus' rest of
             Inl e \<Rightarrow> Inl e
           | Inr (bus'', rs) \<Rightarrow> Inr (bus'', r # rs)))"

lemma log_audit_event_returns:
  "log_audit_event bus ev outcome
   = Inr (bus\<lparr> audit_log := audit_log bus @ (case outcome of None \<Rightarrow> [ev] | Some e \<Rightarrow> []) \<rparr>)"
  by (simp add: log_audit_event_def log_audit_event_try_def split: option.splits)

text \<open>
  A validation result that is risk-adjusted carries an error, so it is not valid: the
  clipping step of \<^verbatim>\<open>submit\<close> is never reached with a valid result.
\<close>

lemma risk_adjusted_not_valid:
  assumes "risk_adjusted (validate_order_intent oi ps)"
  shows "\<not> valid (validate_order_intent oi ps)"
  using assms
  by (auto simp: validate_order_intent_def Let_def split: option.splits if_splits)

lemma process_new_intent_raises:
  assumes "position_type_error oi ps = Some e"
  shows "process_new_intent b oi ps clk io = (b, Inl e)"
  using assms by (simp add: process_new_intent_def validate_order_intent_dyn_def)

text \<open>
  When validation does not raise, steps 2 to 7 return a result: they set the pending
  orders, attempt one audit write of an event that is not an \<^verbatim>\<open>order_error\<close>, and the
  outcome of the write shows in the audit log only.
\<close>

lemma process_new_intent_returns:
  assumes "position_type_error oi ps = None"
  shows "\<exists>P W ev r. (\<forall>i m t. ev \<noteq> OrderError i m t)
           \<and> (\<forall>io. process_new_intent b oi ps clk io
                  = (b\<lparr> pending_orders := P,
                        audit_log := audit_log b
                          @ (case io W of None \<Rightarrow> [ev] | Some x \<Rightarrow> []) \<rparr>, Inr r))"
proof -
  let ?v = "validate_order_intent oi (map_option float_positions ps)"
  have vd: "validate_order_intent_dyn oi ps = Inr ?v"
    using assms by (simp add: validate_order_intent_dyn_def)
  show ?thesis
  proof (cases "valid ?v")
    case False
    let ?ev = "OrderRejected (intent_id oi) (errors ?v) (clk RejectedEventTs)"
    let ?r = "\<lparr> success = False, order_id = None, idempotent = False,
        validation_result = Some ?v, error_message = Some (JoinedErrors (errors ?v)),
        res_timestamp = clk RejectedTs \<rparr>"
    have "\<forall>io. process_new_intent b oi ps clk io
        = (b\<lparr> pending_orders := pending_orders b,
              audit_log := audit_log b
                @ (case io RejectedWrite of None \<Rightarrow> [?ev] | Some x \<Rightarrow> []) \<rparr>, Inr ?r)"
      using False vd by (simp add: process_new_intent_def log_audit_event_returns)
    moreover have "\<forall>i m t. ?ev \<noteq> OrderError i m t"
      by simp
    ultimately show ?thesis
      by blast
  next
    case True
    then have nr: "\<not> risk_adjusted ?v"
      using risk_adjusted_not_valid by blast
    let ?oid = "''ord_'' @ intent_id oi @ ''_'' @ str_int (py_int (clk OrderIdNow))"
    let ?P = "dict_set ?oid
        \<lparr> po_intent_id = intent_id oi, po_order_intent = oi, po_status = ''pending'',
          po_created_at = clk PendingCreatedAt \<rparr> (pending_orders b)"
    let ?ev = "OrderSubmitted ?oid (intent_id oi) (symbol oi) (side oi) (size_qty oi)
        (order_type oi) (warnings ?v) (clk SubmittedEventTs)"
    let ?r = "\<lparr> success = True, order_id = Some ?oid, idempotent = False,
        validation_result = Some ?v, error_message = None,
        res_timestamp = clk SubmittedTs \<rparr>"
    have "\<forall>io. process_new_intent b oi ps clk io
        = (b\<lparr> pending_orders := ?P,
              audit_log := audit_log b
                @ (case io SubmittedWrite of None \<Rightarrow> [?ev] | Some x \<Rightarrow> []) \<rparr>, Inr ?r)"
      using True nr vd
      by (simp add: process_new_intent_def log_audit_event_returns Let_def
          cong: option.case_cong)
    moreover have "\<forall>i m t. ?ev \<noteq> OrderError i m t"
      by simp
    ultimately show ?thesis
      by blast
  qed
qed

lemma submit_try_idempotent:
  assumes "snd (check_and_store (idempotency_cache bus) (intent_id oi) oi
      (clk CleanNow) (clk StoreIso) (clk StoreCreated))"
  shows "submit_try bus oi ps clk io
         = (bus\<lparr> idempotency_cache := fst (check_and_store (idempotency_cache bus)
                  (intent_id oi) oi (clk CleanNow) (clk StoreIso) (clk StoreCreated)) \<rparr>,
            Inr \<lparr> success = False, order_id = None, idempotent = True,
                  validation_result = None,
                  error_message = Some (Text ''Order intent already processed''),
                  res_timestamp = clk IdempotentTs \<rparr>)"
  using assms
  by (cases "check_and_store (idempotency_cache bus) (intent_id oi) oi
        (clk CleanNow) (clk StoreIso) (clk StoreCreated)")
     (simp add: submit_try_def Let_def)

lemma submit_try_new:
  assumes "\<not> snd (check_and_store (idempotency_cache bus) (intent_id oi) oi
      (clk CleanNow) (clk StoreIso) (clk StoreCreated))"
  shows "submit_try bus oi ps clk io
         = process_new_intent
             (bus\<lparr> idempotency_cache := fst (check_and_store (idempotency_cache bus)
                  (intent_id oi) oi (clk CleanNow) (clk StoreIso) (clk StoreCreated)) \<rparr>)
             oi ps clk io"
  using assms
  by (cases "check_and_store (idempotency_cache bus) (intent_id oi) oi
        (clk CleanNow) (clk StoreIso) (clk StoreCreated)")
     (simp add: submit_try_def Let_def)

text \<open>
  The \<^verbatim>\<open>try\<close> block raises exactly when the intent is new and the position stored under
  its symbol is not a number, and then it raises the \<^verbatim>\<open>TypeError\<close> of the position rule.
\<close>

lemma submit_try_raises_iff:
  "snd (submit_try bus oi ps clk io) = Inl e
   \<longleftrightarrow> \<not> snd (check_and_store (idempotency_cache bus) (intent_id oi) oi
              (clk CleanNow) (clk StoreIso) (clk StoreCreated))
       \<and> position_type_error oi ps = Some e"
proof (cases "snd (check_and_store (idempotency_cache bus) (intent_id oi) oi
    (clk CleanNow) (clk StoreIso) (clk StoreCreated))")
  case True
  then show ?thesis
    by (simp add: submit_try_idempotent)
next
  case False
  show ?thesis
  proof (cases "position_type_error oi ps")
    case None
    let ?b = "bus\<lparr> idempotency_cache := fst (check_and_store (idempotency_cache bus)
        (intent_id oi) oi (clk CleanNow) (clk StoreIso) (clk StoreCreated)) \<rparr>"
    from process_new_intent_returns [OF None, of ?b clk]
    obtain r where "snd (process_new_intent ?b oi ps clk io) = Inr r"
      by (metis snd_conv)
    with False None show ?thesis
      by (simp add: submit_try_new)
  next
    case (Some e')
    with False show ?thesis
      by (auto simp: submit_try_new process_new_intent_raises)
  qed
qed

text \<open>
  The shape of every \<^verbatim>\<open>submit\<close> call: it returns, it stores the outcome of the cache
  check, and the outcomes of the audit writes show in the audit log only.
\<close>

lemma submit_shape:
  "\<exists>P W evs r.
     (\<forall>io. submit bus oi ps clk io
        = Inr (bus\<lparr> idempotency_cache := fst (check_and_store (idempotency_cache bus)
                       (intent_id oi) oi (clk CleanNow) (clk StoreIso) (clk StoreCreated)),
                    pending_orders := P,
                    audit_log := audit_log bus
                      @ (case io W of None \<Rightarrow> evs | Some x \<Rightarrow> []) \<rparr>, r))
     \<and> (\<forall>i m t. OrderError i m t \<in> set evs
           \<longrightarrow> \<not> snd (check_and_store (idempotency_cache bus) (intent_id oi) oi
                      (clk CleanNow) (clk StoreIso) (clk StoreCreated))
               \<and> position_type_error oi ps \<noteq> None)"
proof -
  let ?c = "check_and_store (idempotency_cache bus) (intent_id oi) oi
      (clk CleanNow) (clk StoreIso) (clk StoreCreated)"
  let ?b = "bus\<lparr> idempotency_cache := fst ?c \<rparr>"
  show ?thesis
  proof (cases "snd ?c")
    case True
    let ?r = "\<lparr> success = False, order_id = None, idempotent = True,
        validation_result = None,
        error_message = Some (Text ''Order intent already processed''),
        res_timestamp = clk IdempotentTs \<rparr>"
    have "\<forall>io. submit bus oi ps clk io
        = Inr (bus\<lparr> idempotency_cache := fst ?c, pending_orders := pending_orders bus,
                    audit_log := audit_log bus
                      @ (case io ErrorWrite of None \<Rightarrow> [] | Some x \<Rightarrow> []) \<rparr>, ?r)"
      using True by (simp add: submit_def submit_try_idempotent split: option.splits)
    moreover have "\<forall>i m t. OrderError i m t \<in> set ([] :: audit_event list)
        \<longrightarrow> \<not> snd ?c \<and> position_type_error oi ps \<noteq> None"
      by simp
    ultimately show ?thesis
      by blast
  next
    case False
    show ?thesis
    proof (cases "position_type_error oi ps")
      case (Some e)
      let ?ev = "OrderError (intent_id oi) (str_exn e) (clk ErrorEventTs)"
      let ?r = "\<lparr> success = False, order_id = None, idempotent = False,
          validation_result = None, error_message = Some (Text (str_exn e)),
          res_timestamp = clk ErrorTs \<rparr>"
      have "\<forall>io. submit bus oi ps clk io
          = Inr (bus\<lparr> idempotency_cache := fst ?c, pending_orders := pending_orders bus,
                      audit_log := audit_log bus
                        @ (case io ErrorWrite of None \<Rightarrow> [?ev] | Some x \<Rightarrow> []) \<rparr>, ?r)"
        using False Some
        by (simp add: submit_def submit_try_new process_new_intent_raises
            log_audit_event_returns)
      moreover have "\<forall>i m t. OrderError i m t \<in> set [?ev]
          \<longrightarrow> \<not> snd ?c \<and> position_type_error oi ps \<noteq> None"
        using False Some by simp
      ultimately show ?thesis
        by blast
    next
      case None
      from process_new_intent_returns [OF None, of ?b clk]
      obtain P W ev r where ev: "\<forall>i m t. ev \<noteq> OrderError i m t"
        and run: "\<forall>io. process_new_intent ?b oi ps clk io
            = (?b\<lparr> pending_orders := P,
                   audit_log := audit_log ?b
                     @ (case io W of None \<Rightarrow> [ev] | Some x \<Rightarrow> []) \<rparr>, Inr r)"
        by blast
      have "\<forall>io. submit bus oi ps clk io
          = Inr (bus\<lparr> idempotency_cache := fst ?c, pending_orders := P,
                      audit_log := audit_log bus
                        @ (case io W of None \<Rightarrow> [ev] | Some x \<Rightarrow> []) \<rparr>, r)"
        using False run by (simp add: submit_def submit_try_new)
      moreover have "\<forall>i m t. OrderError i m t \<in> set [ev]
          \<longrightarrow> \<not> snd ?c \<and> position_type_error oi ps \<noteq> None"
        using ev by (metis empty_iff empty_set set_ConsD)
      ultimately show ?thesis
        by blast
    qed
  qed
qed

text \<open>
  Claim C9, as stated: an exception raised during the audit write of step 6 would be
  caught by \<^verbatim>\<open>submit\<close>, recorded as an \<^verbatim>\<open>order_error\<close> event and returned as a failure. A
  valid new intent whose audit writes fail (the disk is full) is reported as a success
  with its order id, the order is pending, and the audit log stays empty.
\<close>

theorem submit_audit_failure_reported_as_success:
  "submit OrderBus_init
     \<lparr> symbol = ''BTC'', side = BUY, size_qty = 1 / 100, order_type = MARKET,
       intent_id = ''A'', limit_px = None, tif = GTC, meta = None, created_at = 0 \<rparr>
     None (\<lambda>s. 100) (\<lambda>w. Some (OSError ''No space left on device''))
   = Inr (\<lparr> idempotency_cache =
             \<lparr> window_seconds = 60, cache_max_size = 1000,
               cache = [(''A'',
                 \<lparr> order_data =
                     \<lparr> symbol = ''BTC'', side = BUY, size_qty = 1 / 100, order_type = MARKET,
                       intent_id = ''A'', limit_px = None, tif = GTC, meta = None,
                       created_at = 0 \<rparr>,
                   entry_timestamp = 100, entry_created_at = 100 \<rparr>)] \<rparr>,
           audit_log = [],
           pending_orders = [(''ord_A_100'',
             \<lparr> po_intent_id = ''A'',
               po_order_intent =
                 \<lparr> symbol = ''BTC'', side = BUY, size_qty = 1 / 100, order_type = MARKET,
                   intent_id = ''A'', limit_px = None, tif = GTC, meta = None,
                   created_at = 0 \<rparr>,
               po_status = ''pending'', po_created_at = 100 \<rparr>)] \<rparr>,
         \<lparr> success = True, order_id = Some ''ord_A_100'', idempotent = False,
           validation_result =
             Some \<lparr> valid = True, errors = [], warnings = [], clipped_size = None,
                    risk_adjusted = False \<rparr>,
           error_message = None, res_timestamp = 100 \<rparr>)"
  by (simp add: submit_def submit_try_def process_new_intent_def check_and_store_def
      clean_expired_def OrderBus_init_def IdempotencyCache_init_def
      validate_order_intent_dyn_def position_type_error_def
      validate_order_intent_def RiskLimits_default_def mock_price_def mock_prices_def
      log_audit_event_def log_audit_event_try_def dict_set_def str_int_def py_int_def
      digits.simps Let_def)

text \<open>
  Claim C9, amended. For every bus, intent, positions dictionary, clock and outcome of
  the audit writes:

  \<^item> \<^verbatim>\<open>submit\<close> returns; no exception leaves it.

  \<^item> The \<^verbatim>\<open>try\<close> block raises exactly when the intent is new to the cache and the
    position rule of the validation raises (the value stored under the intent's symbol
    is not a number). Clipping is never reached, order-id generation and pending-order
    creation do not raise, and an exception of an audit write does not leave
    \<^verbatim>\<open>_log_audit_event\<close>.

  \<^item> Every exception \<open>e\<close> that the \<^verbatim>\<open>try\<close> block raises is caught: the result has
    \<open>success = false\<close> and carries the text of \<open>e\<close>, no order is pending, and the audit log
    grows by exactly the \<^verbatim>\<open>order_error\<close> event keyed by the intent id when the audit file
    accepts the write, and by nothing when that write fails.

  \<^item> The outcomes of the audit writes change nothing but the audit log: the result, the
    cache and the pending orders are the same under any two outcomes, and when every
    write fails the audit log is left as it was.

  \<^item> An \<^verbatim>\<open>order_error\<close> event that is in the audit log after the call was there before or
    the \<^verbatim>\<open>try\<close> block raised; a failing audit write produces none.
\<close>

theorem submit_catches_every_exception:
  "(\<exists>bus' r. submit bus oi ps clk io = Inr (bus', r))
   \<and> (\<forall>e. snd (submit_try bus oi ps clk io) = Inl e
        \<longleftrightarrow> \<not> snd (check_and_store (idempotency_cache bus) (intent_id oi) oi
                   (clk CleanNow) (clk StoreIso) (clk StoreCreated))
            \<and> position_type_error oi ps = Some e)
   \<and> (\<forall>e. snd (submit_try bus oi ps clk io) = Inl e
        \<longrightarrow> snd (projr (submit bus oi ps clk io))
              = \<lparr> success = False, order_id = None, idempotent = False,
                  validation_result = None, error_message = Some (Text (str_exn e)),
                  res_timestamp = clk ErrorTs \<rparr>
            \<and> pending_orders (fst (projr (submit bus oi ps clk io))) = pending_orders bus
            \<and> audit_log (fst (projr (submit bus oi ps clk io)))
              = audit_log bus
                @ (case io ErrorWrite of
                     None \<Rightarrow> [OrderError (intent_id oi) (str_exn e) (clk ErrorEventTs)]
                   | Some x \<Rightarrow> []))
   \<and> (\<forall>io'. snd (projr (submit bus oi ps clk io')) = snd (projr (submit bus oi ps clk io))
          \<and> idempotency_cache (fst (projr (submit bus oi ps clk io')))
            = idempotency_cache (fst (projr (submit bus oi ps clk io)))
          \<and> pending_orders (fst (projr (submit bus oi ps clk io')))
            = pending_orders (fst (projr (submit bus oi ps clk io))))
   \<and> ((\<forall>w. io w \<noteq> None)
        \<longrightarrow> audit_log (fst (projr (submit bus oi ps clk io))) = audit_log bus)
   \<and> (\<forall>i m t. OrderError i m t \<in> set (audit_log (fst (projr (submit bus oi ps clk io))))
        \<longrightarrow> OrderError i m t \<in> set (audit_log bus)
            \<or> (\<exists>e. snd (submit_try bus oi ps clk io) = Inl e))"
proof -
  let ?c = "check_and_store (idempotency_cache bus) (intent_id oi) oi
      (clk CleanNow) (clk StoreIso) (clk StoreCreated)"
  obtain P W evs r where run: "\<And>io. submit bus oi ps clk io
        = Inr (bus\<lparr> idempotency_cache := fst ?c, pending_orders := P,
                    audit_log := audit_log bus
                      @ (case io W of None \<Rightarrow> evs | Some x \<Rightarrow> []) \<rparr>, r)"
    and evs: "\<And>i m t. OrderError i m t \<in> set evs
        \<Longrightarrow> \<not> snd ?c \<and> position_type_error oi ps \<noteq> None"
    using submit_shape [of bus oi ps clk] by blast
  have returns: "\<exists>bus' r. submit bus oi ps clk io = Inr (bus', r)"
    using run by blast
  have raises: "\<forall>e. snd (submit_try bus oi ps clk io) = Inl e
      \<longleftrightarrow> \<not> snd ?c \<and> position_type_error oi ps = Some e"
    using submit_try_raises_iff by blast
  have caught: "\<forall>e. snd (submit_try bus oi ps clk io) = Inl e
      \<longrightarrow> snd (projr (submit bus oi ps clk io))
            = \<lparr> success = False, order_id = None, idempotent = False,
                validation_result = None, error_message = Some (Text (str_exn e)),
                res_timestamp = clk ErrorTs \<rparr>
          \<and> pending_orders (fst (projr (submit bus oi ps clk io))) = pending_orders bus
          \<and> audit_log (fst (projr (submit bus oi ps clk io)))
            = audit_log bus
              @ (case io ErrorWrite of
                   None \<Rightarrow> [OrderError (intent_id oi) (str_exn e) (clk ErrorEventTs)]
                 | Some x \<Rightarrow> [])"
  proof (intro allI impI)
    fix e
    assume "snd (submit_try bus oi ps clk io) = Inl e"
    then have new: "\<not> snd ?c" and pe: "position_type_error oi ps = Some e"
      using submit_try_raises_iff by blast+
    have "submit_try bus oi ps clk io = (bus\<lparr> idempotency_cache := fst ?c \<rparr>, Inl e)"
      using new pe by (simp add: submit_try_new process_new_intent_raises)
    then show "snd (projr (submit bus oi ps clk io))
            = \<lparr> success = False, order_id = None, idempotent = False,
                validation_result = None, error_message = Some (Text (str_exn e)),
                res_timestamp = clk ErrorTs \<rparr>
          \<and> pending_orders (fst (projr (submit bus oi ps clk io))) = pending_orders bus
          \<and> audit_log (fst (projr (submit bus oi ps clk io)))
            = audit_log bus
              @ (case io ErrorWrite of
                   None \<Rightarrow> [OrderError (intent_id oi) (str_exn e) (clk ErrorEventTs)]
                 | Some x \<Rightarrow> [])"
      by (simp add: submit_def log_audit_event_returns)
  qed
  have indep: "\<forall>io'. snd (projr (submit bus oi ps clk io'))
        = snd (projr (submit bus oi ps clk io))
      \<and> idempotency_cache (fst (projr (submit bus oi ps clk io')))
        = idempotency_cache (fst (projr (submit bus oi ps clk io)))
      \<and> pending_orders (fst (projr (submit bus oi ps clk io')))
        = pending_orders (fst (projr (submit bus oi ps clk io)))"
    by (simp add: run)
  have failing: "(\<forall>w. io w \<noteq> None)
      \<longrightarrow> audit_log (fst (projr (submit bus oi ps clk io))) = audit_log bus"
  proof
    assume "\<forall>w. io w \<noteq> None"
    then obtain x where "io W = Some x"
      by auto
    then show "audit_log (fst (projr (submit bus oi ps clk io))) = audit_log bus"
      by (simp add: run)
  qed
  have only: "\<forall>i m t. OrderError i m t
        \<in> set (audit_log (fst (projr (submit bus oi ps clk io))))
      \<longrightarrow> OrderError i m t \<in> set (audit_log bus)
          \<or> (\<exists>e. snd (submit_try bus oi ps clk io) = Inl e)"
  proof (intro allI impI)
    fix i m t
    assume "OrderError i m t \<in> set (audit_log (fst (projr (submit bus oi ps clk io))))"
    then have "OrderError i m t \<in> set (audit_log bus) \<or> OrderError i m t \<in> set evs"
      by (auto simp: run split: option.splits)
    then show "OrderError i m t \<in> set (audit_log bus)
        \<or> (\<exists>e. snd (submit_try bus oi ps clk io) = Inl e)"
    proof
      assume "OrderError i m t \<in> set (audit_log bus)"
      then show ?thesis ..
    next
      assume "OrderError i m t \<in> set evs"
      then have "\<not> snd ?c" and "position_type_error oi ps \<noteq> None"
        using evs by blast+
      then obtain e where "\<not> snd ?c \<and> position_type_error oi ps = Some e"
        by auto
      then have "snd (submit_try bus oi ps clk io) = Inl e"
        using submit_try_raises_iff by blast
      then show ?thesis
        by blast
    qed
  qed
  from returns raises caught indep failing only show ?thesis
    by (intro conjI)
qed

text \<open>
  The theorem at two calls on a new bus with the intent A (buy 0.01 BTC at market) and
  every clock read 100. With the position of BTC stored as \<^verbatim>\<open>None\<close> and a working audit
  file, the validation raises, the call returns the failure with the text of the
  \<^verbatim>\<open>TypeError\<close> and the audit log holds the \<^verbatim>\<open>order_error\<close> event. With the position
  stored as a string and a full disk, the call returns the failure as well and the audit
  log stays empty.
\<close>

theorem submit_catches_every_exception_witness:
  "snd (submit_try OrderBus_init
       \<lparr> symbol = ''BTC'', side = BUY, size_qty = 1 / 100, order_type = MARKET,
         intent_id = ''A'', limit_px = None, tif = GTC, meta = None, created_at = 0 \<rparr>
       (Some [(''BTC'', PyNone)]) (\<lambda>s. 100) (\<lambda>w. None))
     = Inl (TypeError (''unsupported operand type(s) for +: '' @ quoted ''NoneType''
                       @ '' and '' @ quoted ''float''))
   \<and> snd (projr (submit OrderBus_init
       \<lparr> symbol = ''BTC'', side = BUY, size_qty = 1 / 100, order_type = MARKET,
         intent_id = ''A'', limit_px = None, tif = GTC, meta = None, created_at = 0 \<rparr>
       (Some [(''BTC'', PyNone)]) (\<lambda>s. 100) (\<lambda>w. None)))
     = \<lparr> success = False, order_id = None, idempotent = False, validation_result = None,
         error_message =
           Some (Text (''unsupported operand type(s) for +: '' @ quoted ''NoneType''
                       @ '' and '' @ quoted ''float'')),
         res_timestamp = 100 \<rparr>
   \<and> audit_log (fst (projr (submit OrderBus_init
       \<lparr> symbol = ''BTC'', side = BUY, size_qty = 1 / 100, order_type = MARKET,
         intent_id = ''A'', limit_px = None, tif = GTC, meta = None, created_at = 0 \<rparr>
       (Some [(''BTC'', PyNone)]) (\<lambda>s. 100) (\<lambda>w. None))))
     = [OrderError ''A''
          (''unsupported operand type(s) for +: '' @ quoted ''NoneType''
           @ '' and '' @ quoted ''float'') 100]
   \<and> snd (submit_try OrderBus_init
       \<lparr> symbol = ''BTC'', side = BUY, size_qty = 1 / 100, order_type = MARKET,
         intent_id = ''A'', limit_px = None, tif = GTC, meta = None, created_at = 0 \<rparr>
       (Some [(''BTC'', PyStr ''1.5'')]) (\<lambda>s. 100)
       (\<lambda>w. Some (OSError ''No space left on device'')))
     = Inl (TypeError (''can only concatenate str (not '' @ double_quoted ''float''
                       @ '') to str''))
   \<and> snd (projr (submit OrderBus_init
       \<lparr> symbol = ''BTC'', side = BUY, size_qty = 1 / 100, order_type = MARKET,
         intent_id = ''A'', limit_px = None, tif = GTC, meta = None, created_at = 0 \<rparr>
       (Some [(''BTC'', PyStr ''1.5'')]) (\<lambda>s. 100)
       (\<lambda>w. Some (OSError ''No space left on device''))))
     = \<lparr> success = False, order_id = None, idempotent = False, validation_result = None,
         error_message =
           Some (Text (''can only concatenate str (not '' @ double_quoted ''float''
                       @ '') to str'')),
         res_timestamp = 100 \<rparr>
   \<and> audit_log (fst (projr (submit OrderBus_init
       \<lparr> symbol = ''BTC'', side = BUY, size_qty = 1 / 100, order_type = MARKET,
         intent_id = ''A'', limit_px = None, tif = GTC, meta = None, created_at = 0 \<rparr>
       (Some [(''BTC'', PyStr ''1.5'')]) (\<lambda>s. 100)
       (\<lambda>w. Some (OSError ''No space left on device''))))) = []"
proof -
  let ?oi = "\<lparr> symbol = ''BTC'', side = BUY, size_qty = 1 / 100, order_type = MARKET,
      intent_id = ''A'', limit_px = None, tif = GTC, meta = None, created_at = 0 \<rparr>"
  let ?e1 = "TypeError (''unsupported operand type(s) for +: '' @ quoted ''NoneType''
      @ '' and '' @ quoted ''float'')"
  let ?e2 = "TypeError (''can only concatenate str (not '' @ double_quoted ''float''
      @ '') to str'')"
  let ?full = "\<lambda>w :: write_site. Some (OSError ''No space left on device'')"
  have raised1: "snd (submit_try OrderBus_init ?oi (Some [(''BTC'', PyNone)]) (\<lambda>s. 100)
      (\<lambda>w. None)) = Inl ?e1"
    by (simp add: submit_try_def process_new_intent_def check_and_store_def
        clean_expired_def OrderBus_init_def IdempotencyCache_init_def
        validate_order_intent_dyn_def position_type_error_def Let_def)
  have raised2: "snd (submit_try OrderBus_init ?oi (Some [(''BTC'', PyStr ''1.5'')])
      (\<lambda>s. 100) ?full) = Inl ?e2"
    by (simp add: submit_try_def process_new_intent_def check_and_store_def
        clean_expired_def OrderBus_init_def IdempotencyCache_init_def
        validate_order_intent_dyn_def position_type_error_def Let_def)
  note t1 = submit_catches_every_exception
    [of OrderBus_init ?oi "Some [(''BTC'', PyNone)]" "\<lambda>s. 100" "\<lambda>w. None"]
  note t2 = submit_catches_every_exception
    [of OrderBus_init ?oi "Some [(''BTC'', PyStr ''1.5'')]" "\<lambda>s. 100" ?full]
  note caught1 = t1 [THEN conjunct2, THEN conjunct2, THEN conjunct1, rule_format,
      OF raised1]
  note caught2 = t2 [THEN conjunct2, THEN conjunct2, THEN conjunct1, rule_format,
      OF raised2]
  have "\<forall>w. ?full w \<noteq> None"
    by simp
  with t2 have silent: "audit_log (fst (projr (submit OrderBus_init ?oi
      (Some [(''BTC'', PyStr ''1.5'')]) (\<lambda>s. 100) ?full))) = audit_log OrderBus_init"
    by (rule conjunct2 [THEN conjunct2, THEN conjunct2, THEN conjunct2, THEN conjunct1,
        THEN mp])
  show ?thesis
    using raised1 raised2 caught1 caught2 silent by (simp add: OrderBus_init_def)
qed

text \<open>The \<open>check_and_store\<close> call that a \<^verbatim>\<open>submit\<close> call makes.\<close>

definition cas_call_of ::
  "OrderIntent \<times> (string \<times> pyval) list option \<times> (site \<Rightarrow> real)
     \<times> (write_site \<Rightarrow> exn option) \<Rightarrow> OrderIntent cas_call" where
  "cas_call_of x =
     (case x of
        (oi, ps, clk, io) \<Rightarrow>
          \<lparr> call_id = intent_id oi, call_data = oi, t_clean = clk CleanNow,
            t_iso = clk StoreIso, t_created = clk StoreCreated \<rparr>)"

text \<open>
  The scenario of claim C8: an intent with id A, and the n-th of a run of other intents,
  which differ from it only in their ids.
\<close>

definition example_intent :: OrderIntent where
  "example_intent =
     \<lparr> symbol = ''BTC'', side = BUY, size_qty = 1 / 100, order_type = MARKET,
       intent_id = ''A'', limit_px = None, tif = GTC, meta = None, created_at = 0 \<rparr>"

definition filler_intent :: "nat \<Rightarrow> OrderIntent" where
  "filler_intent n = example_intent\<lparr> intent_id := ''f'' @ replicate n CHR ''x'' \<rparr>"

text \<open>
  The calls of the scenario, all without a positions dictionary and with a working audit
  file: the intent A at time 100.2, a thousand other intents at time 100.5, and the
  intent A again at time 100.7.
\<close>

definition first_call ::
  "OrderBus \<Rightarrow> exn + (OrderBus \<times> EnqueuedResult)" where
  "first_call bus = submit bus example_intent None (\<lambda>s. 1002 / 10) (\<lambda>w. None)"

definition filler_calls ::
  "(OrderIntent \<times> (string \<times> pyval) list option \<times> (site \<Rightarrow> real)
     \<times> (write_site \<Rightarrow> exn option)) list" where
  "filler_calls = map (\<lambda>n. (filler_intent n, None, (\<lambda>s. 1005 / 10), (\<lambda>w. None))) [0..<1000]"

definition second_call ::
  "OrderBus \<Rightarrow> exn + (OrderBus \<times> EnqueuedResult)" where
  "second_call bus = submit bus example_intent None (\<lambda>s. 1007 / 10) (\<lambda>w. None)"

definition bus_after_fillers :: OrderBus where
  "bus_after_fillers =
     fst (projr (submit_each (fst (projr (first_call OrderBus_init))) filler_calls))"

lemma submit_cache:
  "\<exists>bus' r. submit bus oi ps clk io = Inr (bus', r)
     \<and> idempotency_cache bus'
       = fst (check_and_store (idempotency_cache bus) (intent_id oi) oi
                (clk CleanNow) (clk StoreIso) (clk StoreCreated))"
proof -
  obtain P W evs r where "\<And>io. submit bus oi ps clk io
        = Inr (bus\<lparr> idempotency_cache := fst (check_and_store (idempotency_cache bus)
                       (intent_id oi) oi (clk CleanNow) (clk StoreIso) (clk StoreCreated)),
                    pending_orders := P,
                    audit_log := audit_log bus
                      @ (case io W of None \<Rightarrow> evs | Some x \<Rightarrow> []) \<rparr>, r)"
    using submit_shape [of bus oi ps clk] by blast
  then show ?thesis
    by simp
qed

lemma submit_each_cache:
  "\<exists>bus' rs. submit_each bus xs = Inr (bus', rs)
     \<and> idempotency_cache bus' = fst (run_calls (idempotency_cache bus) (map cas_call_of xs))"
proof (induction xs arbitrary: bus)
  case Nil
  show ?case by simp
next
  case (Cons x xs)
  obtain oi ps clk io where x: "x = (oi, ps, clk, io)"
    by (cases x) auto
  let ?c1 = "fst (check_and_store (idempotency_cache bus) (intent_id oi) oi
      (clk CleanNow) (clk StoreIso) (clk StoreCreated))"
  obtain bus1 r where s1: "submit bus oi ps clk io = Inr (bus1, r)"
    and c1: "idempotency_cache bus1 = ?c1"
    using submit_cache [of bus oi ps clk io] by blast
  obtain bus2 rs where s2: "submit_each bus1 xs = Inr (bus2, rs)"
    and c2: "idempotency_cache bus2
        = fst (run_calls (idempotency_cache bus1) (map cas_call_of xs))"
    using Cons.IH [of bus1] by blast
  have "submit_each bus (x # xs) = Inr (bus2, r # rs)"
    by (simp add: x s1 s2)
  moreover have "fst (run_calls (idempotency_cache bus) (map cas_call_of (x # xs)))
      = fst (run_calls ?c1 (map cas_call_of xs))"
    by (simp add: x cas_call_of_def split: prod.splits)
  ultimately show ?case
    using c1 c2 by simp
qed

lemma clean_expired_nothing:
  assumes "\<forall>e \<in> snd ` set (cache c). \<not> expired c now e"
  shows "clean_expired c now = c"
proof -
  have "filter (\<lambda>(k, e). \<not> expired c now e) (cache c) = cache c"
    using assms by (auto simp: filter_id_conv)
  then show ?thesis
    by (simp add: clean_expired_def)
qed

lemma check_and_store_fresh_key:
  assumes fresh: "\<forall>e \<in> snd ` set (cache c). \<not> expired c now e"
    and new: "k \<notin> fst ` set (cache c)"
  shows "cache (fst (check_and_store c k d now ts t))
         = (if int (length (cache c)) + 1 > cache_max_size c
            then tl (cache c @ [(k, \<lparr> order_data = d, entry_timestamp = ts,
                                       entry_created_at = t \<rparr>)])
            else cache c @ [(k, \<lparr> order_data = d, entry_timestamp = ts,
                                   entry_created_at = t \<rparr>)])"
  using new by (simp add: check_and_store_def Let_def clean_expired_nothing [OF fresh])

text \<open>
  Storing a run of new, pairwise distinct ids at one instant, with nothing expiring: the
  keys of the cache are the old keys followed by the new ones, cut from the front to the
  maximum size.
\<close>

lemma tl_snoc_subset: "set (tl (xs @ [y])) \<subseteq> set xs \<union> {y}"
  by (cases xs) auto

lemma run_calls_fresh_keys:
  assumes m: "int m = cache_max_size c"
  shows "length (cache c) \<le> m \<Longrightarrow>
         \<forall>e \<in> snd ` set (cache c). \<not> expired c now e \<Longrightarrow>
         distinct (map call_id xs) \<Longrightarrow>
         set (map call_id xs) \<inter> fst ` set (cache c) = {} \<Longrightarrow>
         \<forall>x \<in> set xs. t_clean x = now
            \<and> \<not> now - t_created x > real_of_int (window_seconds c) \<Longrightarrow>
         map fst (cache (fst (run_calls c xs)))
         = drop (length (cache c) + length xs - m) (map fst (cache c) @ map call_id xs)"
  using m
proof (induction xs arbitrary: c)
  case Nil
  then show ?case by simp
next
  case (Cons x xs)
  define new where "new = (call_id x, \<lparr> order_data = call_data x, entry_timestamp = t_iso x,
      entry_created_at = t_created x \<rparr>)"
  define c1 where
    "c1 = fst (check_and_store c (call_id x) (call_data x) (t_clean x) (t_iso x) (t_created x))"
  have new_fst: "fst new = call_id x" and new_created: "entry_created_at (snd new) = t_created x"
    by (simp_all add: new_def)
  have tx: "t_clean x = now" and fx: "\<not> now - t_created x > real_of_int (window_seconds c)"
    using Cons.prems(5) by simp_all
  have fields: "window_seconds c1 = window_seconds c" "cache_max_size c1 = cache_max_size c"
    by (simp_all add: c1_def)
  have newk: "call_id x \<notin> fst ` set (cache c)"
    using Cons.prems(4) by simp
  have cache1: "cache c1 =
      (if int (length (cache c)) + 1 > cache_max_size c then tl (cache c @ [new])
       else cache c @ [new])"
    using check_and_store_fresh_key [OF Cons.prems(2) newk] by (simp add: tx c1_def new_def)
  have sub: "set (cache c1) \<subseteq> set (cache c) \<union> {new}"
    using tl_snoc_subset [of "cache c" new] by (simp add: cache1)
  have m1: "int m = cache_max_size c1"
    using Cons.prems(6) fields by simp
  have len1: "length (cache c1) \<le> m"
    using Cons.prems(1,6) by (simp add: cache1)
  have fresh1: "\<forall>e \<in> snd ` set (cache c1). \<not> expired c1 now e"
  proof
    fix e
    assume "e \<in> snd ` set (cache c1)"
    then obtain ke where ke: "ke \<in> set (cache c1)" and e: "e = snd ke"
      by (rule imageE)
    from ke sub have "ke \<in> set (cache c) \<or> ke = new"
      by (meson UnE singletonD subsetD)
    then have "\<not> expired c now e"
    proof
      assume "ke \<in> set (cache c)"
      then have "e \<in> snd ` set (cache c)"
        using e by (rule image_eqI [rotated])
      with Cons.prems(2) show ?thesis
        by (rule bspec)
    next
      assume "ke = new"
      then show ?thesis
        using fx e new_created by (simp add: expired_def)
    qed
    then show "\<not> expired c1 now e"
      by (simp add: expired_def fields)
  qed
  have dist1: "distinct (map call_id xs)" and notin: "call_id x \<notin> set (map call_id xs)"
    using Cons.prems(3) by simp_all
  have old: "set (map call_id xs) \<inter> fst ` set (cache c) = {}"
    using Cons.prems(4) by simp
  have disj1: "set (map call_id xs) \<inter> fst ` set (cache c1) = {}"
  proof (rule ccontr)
    assume "set (map call_id xs) \<inter> fst ` set (cache c1) \<noteq> {}"
    then obtain k where k: "k \<in> set (map call_id xs)" and "k \<in> fst ` set (cache c1)"
      by (meson disjoint_iff)
    then obtain ke where ke: "ke \<in> set (cache c1)" and kk: "k = fst ke"
      by (meson imageE)
    from ke sub have "ke \<in> set (cache c) \<or> ke = new"
      by (meson UnE singletonD subsetD)
    then show False
    proof
      assume "ke \<in> set (cache c)"
      then have "k \<in> fst ` set (cache c)"
        using kk by (rule image_eqI [rotated])
      with k old show False
        by (meson disjoint_iff)
    next
      assume "ke = new"
      with kk new_fst have "k = call_id x"
        by simp
      with k notin show False
        by simp
    qed
  qed
  have times1: "\<forall>y \<in> set xs. t_clean y = now
      \<and> \<not> now - t_created y > real_of_int (window_seconds c1)"
    using Cons.prems(5) fields by simp
  have run: "fst (run_calls c (x # xs)) = fst (run_calls c1 xs)"
    by (simp add: c1_def split: prod.splits)
  have IH: "map fst (cache (fst (run_calls c1 xs)))
      = drop (length (cache c1) + length xs - m) (map fst (cache c1) @ map call_id xs)"
    using len1 fresh1 dist1 disj1 times1 m1 by (rule Cons.IH)
  show ?case
  proof (cases "int (length (cache c)) + 1 > cache_max_size c")
    case False
    then have "cache c1 = cache c @ [new]"
      by (simp add: cache1)
    then have "map fst (cache c1) @ map call_id xs
        = map fst (cache c) @ map call_id (x # xs)"
      "length (cache c1) + length xs - m = length (cache c) + length (x # xs) - m"
      by (simp_all add: new_fst)
    then show ?thesis
      by (simp only: run IH)
  next
    case True
    with Cons.prems(1,6) have full: "length (cache c) = m"
      by linarith
    have c1tl: "cache c1 = tl (cache c @ [new])"
      using True by (simp add: cache1)
    have k1: "map fst (cache c1) = tl (map fst (cache c) @ [call_id x])"
      by (simp add: c1tl map_tl new_fst)
    have l1: "length (cache c1) = m"
      using full by (simp add: c1tl)
    have "tl (map fst (cache c) @ [call_id x]) @ map call_id xs
        = tl (map fst (cache c) @ call_id x # map call_id xs)"
      by (cases "map fst (cache c)") simp_all
    then have "drop (length xs) (map fst (cache c1) @ map call_id xs)
        = drop (Suc (length xs)) (map fst (cache c) @ call_id x # map call_id xs)"
      by (simp only: k1 drop_Suc)
    moreover have "length (cache c1) + length xs - m = length xs"
      "length (cache c) + length (x # xs) - m = Suc (length xs)"
      using l1 full by simp_all
    ultimately show ?thesis
      by (simp only: run IH list.map)
  qed
qed

text \<open>
  A new intent that passes the validation is accepted, and its order id is built from
  the intent id and the second of the clock read.
\<close>

lemma submit_new_valid:
  assumes miss: "\<not> snd (check_and_store (idempotency_cache bus) (intent_id oi) oi
      (clk CleanNow) (clk StoreIso) (clk StoreCreated))"
    and v: "valid (validate_order_intent oi None)"
  shows "\<exists>bus' r. submit bus oi None clk io = Inr (bus', r) \<and> success r \<and> \<not> idempotent r
           \<and> order_id r
             = Some (''ord_'' @ intent_id oi @ ''_'' @ str_int (py_int (clk OrderIdNow)))"
proof -
  have nr: "\<not> risk_adjusted (validate_order_intent oi None)"
    using v risk_adjusted_not_valid by blast
  have vd: "validate_order_intent_dyn oi None = Inr (validate_order_intent oi None)"
    by (simp add: validate_order_intent_dyn_def position_type_error_def)
  show ?thesis
    using miss v nr vd
    by (simp add: submit_def submit_try_new process_new_intent_def
        log_audit_event_returns Let_def)
qed

lemma example_intent_valid: "valid (validate_order_intent example_intent None)"
  by (simp add: example_intent_def validate_order_intent_def RiskLimits_default_def
      mock_price_def mock_prices_def Let_def)

lemma order_id_second_100:
  "str_int (py_int (1002 / 10)) = ''100''" "str_int (py_int (1007 / 10)) = ''100''"
  by (simp_all add: py_int_def str_int_def digits.simps)

lemma filler_ids_distinct:
  "distinct (map (\<lambda>n. ''f'' @ replicate n CHR ''x'') [0..<k])"
proof -
  have "inj_on (\<lambda>n. ''f'' @ replicate n CHR ''x'') (set [0..<k])"
  proof (rule inj_onI)
    fix a b
    assume "''f'' @ replicate a CHR ''x'' = ''f'' @ replicate b CHR ''x''"
    then have "length (replicate a CHR ''x'') = length (replicate b CHR ''x'')"
      by simp
    then show "a = b"
      by simp
  qed
  then show ?thesis
    by (simp add: distinct_map)
qed

text \<open>
  After the first call the cache holds the entry of A; the thousand other intents fill
  the cache and push it out.
\<close>

lemma first_call_cache:
  "\<exists>bus1 r. first_call OrderBus_init = Inr (bus1, r)
     \<and> idempotency_cache bus1
       = \<lparr> window_seconds = 60, cache_max_size = 1000,
           cache = [(''A'', \<lparr> order_data = example_intent, entry_timestamp = 1002 / 10,
                              entry_created_at = 1002 / 10 \<rparr>)] \<rparr>"
proof -
  obtain bus1 r where s: "first_call OrderBus_init = Inr (bus1, r)"
    and c: "idempotency_cache bus1
      = fst (check_and_store (idempotency_cache OrderBus_init) (intent_id example_intent)
          example_intent (1002 / 10) (1002 / 10) (1002 / 10))"
    using submit_cache [of OrderBus_init example_intent None "\<lambda>s. 1002 / 10" "\<lambda>w. None"]
    unfolding first_call_def by blast
  have "idempotency_cache bus1
      = \<lparr> window_seconds = 60, cache_max_size = 1000,
          cache = [(''A'', \<lparr> order_data = example_intent, entry_timestamp = 1002 / 10,
                             entry_created_at = 1002 / 10 \<rparr>)] \<rparr>"
    unfolding c
    by (simp add: OrderBus_init_def IdempotencyCache_init_def check_and_store_def
        clean_expired_def Let_def example_intent_def)
  with s show ?thesis
    by blast
qed

lemma bus_after_fillers_keys:
  "\<not> isl (submit_each (fst (projr (first_call OrderBus_init))) filler_calls)
   \<and> ''A'' \<notin> fst ` set (cache (idempotency_cache bus_after_fillers))"
proof -
  obtain bus1 r where s1: "first_call OrderBus_init = Inr (bus1, r)"
    and c1: "idempotency_cache bus1
      = \<lparr> window_seconds = 60, cache_max_size = 1000,
          cache = [(''A'', \<lparr> order_data = example_intent, entry_timestamp = 1002 / 10,
                             entry_created_at = 1002 / 10 \<rparr>)] \<rparr>"
    using first_call_cache by blast
  let ?c1 = "idempotency_cache bus1"
  let ?calls = "map cas_call_of filler_calls"
  obtain bus2 rs where s2: "submit_each bus1 filler_calls = Inr (bus2, rs)"
    and c2: "idempotency_cache bus2 = fst (run_calls ?c1 ?calls)"
    using submit_each_cache [of bus1 filler_calls] by blast
  have b2: "bus_after_fillers = bus2"
    by (simp add: bus_after_fillers_def s1 s2)
  have ids: "map call_id ?calls = map (\<lambda>n. ''f'' @ replicate n CHR ''x'') [0..<1000]"
    by (simp add: filler_calls_def cas_call_of_def filler_intent_def comp_def)
  have m: "int 1000 = cache_max_size ?c1"
    by (simp add: c1)
  have len: "length (cache ?c1) \<le> 1000"
    by (simp add: c1)
  have fresh: "\<forall>e \<in> snd ` set (cache ?c1). \<not> expired ?c1 (1005 / 10) e"
    by (simp add: c1 expired_def)
  have dist: "distinct (map call_id ?calls)"
    by (simp only: ids filler_ids_distinct)
  have disj: "set (map call_id ?calls) \<inter> fst ` set (cache ?c1) = {}"
    by (simp only: ids) (auto simp: c1)
  have times: "\<forall>x \<in> set ?calls. t_clean x = 1005 / 10
      \<and> \<not> 1005 / 10 - t_created x > real_of_int (window_seconds ?c1)"
    by (auto simp: filler_calls_def cas_call_of_def c1)
  have "map fst (cache (idempotency_cache bus2)) = map fst (cache (fst (run_calls ?c1 ?calls)))"
    by (simp only: c2)
  also have "\<dots> = drop (length (cache ?c1) + length ?calls - 1000)
      (map fst (cache ?c1) @ map call_id ?calls)"
    using m len fresh dist disj times by (rule run_calls_fresh_keys)
  also have "\<dots> = map (\<lambda>n. ''f'' @ replicate n CHR ''x'') [0..<1000]"
    by (simp only: ids) (simp add: c1 filler_calls_def)
  finally have "set (map fst (cache (idempotency_cache bus2)))
      = set (map (\<lambda>n. ''f'' @ replicate n CHR ''x'') [0..<1000])"
    by simp
  then have "''A'' \<notin> fst ` set (cache (idempotency_cache bus2))"
    by auto
  then show ?thesis
    by (simp add: b2 s1 s2)
qed

text \<open>
  Claim C8. Two \<^verbatim>\<open>submit\<close> calls with the same intent id that both reach order-id
  generation get the same order id when they fall into the same second. On a new bus the
  intent A is submitted at time 100.2; a thousand other intents are submitted at time
  100.5, which evicts the entry of A from the idempotency cache (its maximum size is
  1000); A is submitted again at time 100.7. No call raises, both submissions of A
  succeed, the second is not reported as a duplicate, and both are given the order id
  \<^verbatim>\<open>ord_A_100\<close>.
\<close>

theorem submit_same_order_id_twice:
  "\<not> isl (first_call OrderBus_init)
   \<and> success (snd (projr (first_call OrderBus_init)))
   \<and> order_id (snd (projr (first_call OrderBus_init))) = Some ''ord_A_100''
   \<and> \<not> isl (submit_each (fst (projr (first_call OrderBus_init))) filler_calls)
   \<and> \<not> isl (second_call bus_after_fillers)
   \<and> success (snd (projr (second_call bus_after_fillers)))
   \<and> \<not> idempotent (snd (projr (second_call bus_after_fillers)))
   \<and> order_id (snd (projr (second_call bus_after_fillers))) = Some ''ord_A_100''"
proof -
  have id: "intent_id example_intent = ''A''"
    by (simp add: example_intent_def)
  have miss1: "\<not> snd (check_and_store (idempotency_cache OrderBus_init)
      (intent_id example_intent) example_intent (1002 / 10) (1002 / 10) (1002 / 10))"
    by (rule check_and_store_miss)
       (simp add: OrderBus_init_def IdempotencyCache_init_def clean_expired_def)
  have gone: "''A'' \<notin> fst ` set (cache (idempotency_cache bus_after_fillers))"
    and run: "\<not> isl (submit_each (fst (projr (first_call OrderBus_init))) filler_calls)"
    using bus_after_fillers_keys by blast+
  have "''A'' \<notin> fst ` set (cache (clean_expired (idempotency_cache bus_after_fillers)
      (1007 / 10)))"
    using gone keys_clean_expired by blast
  then have miss2: "\<not> snd (check_and_store (idempotency_cache bus_after_fillers)
      (intent_id example_intent) example_intent (1007 / 10) (1007 / 10) (1007 / 10))"
    unfolding id by (rule check_and_store_miss)
  have "\<exists>b r. first_call OrderBus_init = Inr (b, r) \<and> success r \<and> \<not> idempotent r
      \<and> order_id r = Some ''ord_A_100''"
    using submit_new_valid [OF miss1 example_intent_valid, of "\<lambda>w. None"]
    unfolding first_call_def id order_id_second_100 by simp
  then obtain b1 r1 where s1: "first_call OrderBus_init = Inr (b1, r1)"
    and r1: "success r1" "order_id r1 = Some ''ord_A_100''"
    by blast
  have "\<exists>b r. second_call bus_after_fillers = Inr (b, r) \<and> success r \<and> \<not> idempotent r
      \<and> order_id r = Some ''ord_A_100''"
    using submit_new_valid [OF miss2 example_intent_valid, of "\<lambda>w. None"]
    unfolding second_call_def id order_id_second_100 by simp
  then obtain b3 r3 where s3: "second_call bus_after_fillers = Inr (b3, r3)"
    and r3: "success r3" "\<not> idempotent r3" "order_id r3 = Some ''ord_A_100''"
    by blast
  show ?thesis
    using run r1 r3 by (simp add: s1 s3)
qed

end
